theory Spec2Isabelle
  imports Main "HOL-Library.AList" "HOL-Library.Sublist"
begin

section \<open>The file system seen by the merger\<close>

text \<open>
  The program \<^verbatim>\<open>copy_file_and_check_duplicates_md5.py\<close> reads a source tree and
  writes into a target tree. A path is the list of its components below a root; a tree
  is an association list from paths to nodes, in the order in which \<^verbatim>\<open>os.walk\<close>
  enumerates it (the order is the operating system's; new entries are appended). The
  root of a tree is the path \<open>[]\<close>. Source and target are taken to be two directories
  neither of which lies under the other, without symbolic links, and the directories of
  the target are taken to be listable.
\<close>

type_synonym path = "string list"

datatype node = File (content: string) (readable: bool) | Dir

type_synonym tree = "(path \<times> node) list"

text \<open>
  The source tree: a file with its bytes and whether it can be opened for reading, or a
  directory with whether it can be listed.
\<close>

datatype snode = SFile string bool | SDir bool

type_synonym stree = "(path \<times> snode) list"

text \<open>
  A file as the loops over the source meet it: its path relative to the source root,
  its bytes and whether it can be opened for reading.
\<close>

record srcfile =
  spath :: path
  sbytes :: string
  sreadable :: bool

text \<open>What \<^verbatim>\<open>calculate_md5\<close> is asked to hash: a file of the source or a path of the target.\<close>

datatype loc = Src srcfile | Tgt path

definition path_exists :: "tree \<Rightarrow> path \<Rightarrow> bool" where
  "path_exists t p = (map_of t p \<noteq> None)"

definition is_file :: "tree \<Rightarrow> path \<Rightarrow> bool" where
  "is_file t p = (case map_of t p of None \<Rightarrow> False | Some Dir \<Rightarrow> False | Some (File c r) \<Rightarrow> True)"

text \<open>The files \<^verbatim>\<open>os.walk\<close> lists under the target root (directories are walked, not listed).\<close>

definition walk_files :: "tree \<Rightarrow> path list" where
  "walk_files t = filter (is_file t) (map fst t)"

text \<open>
  \<^verbatim>\<open>open(p, 'rb')\<close> followed by reading to the end: the bytes, or \<open>None\<close> where Python
  raises (missing file, directory, no permission).
\<close>

fun read_bytes :: "tree \<Rightarrow> loc \<Rightarrow> string option" where
  "read_bytes t (Src f) = (if sreadable f then Some (sbytes f) else None)"
| "read_bytes t (Tgt p) =
     (case map_of t p of
        None \<Rightarrow> None
      | Some Dir \<Rightarrow> None
      | Some (File c r) \<Rightarrow> (if r then Some c else None))"

definition path_parent :: "path \<Rightarrow> path" where
  "path_parent p = butlast p"

definition path_name :: "path \<Rightarrow> string" where
  "path_name p = (case rev p of [] \<Rightarrow> [] | x # xs \<Rightarrow> x)"

text \<open>
  \<^verbatim>\<open>os.walk(self.source)\<close>, called without \<^verbatim>\<open>onerror\<close>: a directory whose listing
  fails is passed over in silence, with everything below it. The walk reaches a path
  when every directory from the root down to the one that holds it can be listed, and
  yields the files it reaches.
\<close>

definition reached :: "stree \<Rightarrow> path \<Rightarrow> bool" where
  "reached s p = list_all (\<lambda>q. map_of s q = Some (SDir True)) (prefixes (path_parent p))"

definition os_walk :: "stree \<Rightarrow> srcfile list" where
  "os_walk s =
     List.map_filter
       (\<lambda>p. case map_of s p of
               None \<Rightarrow> None
             | Some (SDir l) \<Rightarrow> None
             | Some (SFile c r) \<Rightarrow>
                 (if reached s p then Some \<lparr> spath = p, sbytes = c, sreadable = r \<rparr> else None))
       (map fst s)"

text \<open>
  \<^verbatim>\<open>open(p, 'a')\<close> and one \<^verbatim>\<open>write\<close>: an existing file grows, a missing file is
  created when its directory exists, and nothing happens where \<^verbatim>\<open>open\<close> raises
  (the caller swallows the exception).
\<close>

definition append_file :: "tree \<Rightarrow> path \<Rightarrow> string \<Rightarrow> tree" where
  "append_file t p s =
     (case map_of t p of
        Some (File c r) \<Rightarrow> AList.update p (File (c @ s) r) t
      | Some Dir \<Rightarrow> t
      | None \<Rightarrow> (if map_of t (path_parent p) = Some Dir then t @ [(p, File s True)] else t))"

section \<open>pathlib: stem and suffix of a file name\<close>

text \<open>
  \<^verbatim>\<open>str.rfind\<close>: the index of the last occurrence, or \<open>-1\<close>. \<^verbatim>\<open>PurePath.suffix\<close>
  is \<^verbatim>\<open>name[i:]\<close> when \<^verbatim>\<open>0 < i < len(name) - 1\<close> for \<^verbatim>\<open>i = name.rfind('.')\<close>, and empty
  otherwise; the stem is the rest of the name. (This is pathlib up to Python 3.13; the
  source asks for compatibility with Python 3.6.)
\<close>

fun rfind :: "char \<Rightarrow> string \<Rightarrow> int" where
  "rfind c [] = - 1"
| "rfind c (x # xs) =
     (let r = rfind c xs in if 0 \<le> r then r + 1 else if x = c then 0 else - 1)"

definition path_suffix :: "string \<Rightarrow> string" where
  "path_suffix nm =
     (let i = rfind (CHR ''.'') nm
      in if 0 < i \<and> i < int (length nm) - 1 then drop (nat i) nm else [])"

definition path_stem :: "string \<Rightarrow> string" where
  "path_stem nm =
     (let i = rfind (CHR ''.'') nm
      in if 0 < i \<and> i < int (length nm) - 1 then take (nat i) nm else nm)"

text \<open>The decimal digits of a counter, as an f-string prints it.\<close>

definition digit :: "nat \<Rightarrow> char" where
  "digit d = ''0123456789'' ! d"

fun str_nat :: "nat \<Rightarrow> string" where
  "str_nat n = (if n < 10 then [digit n] else str_nat (n div 10) @ [digit (n mod 10)])"

declare str_nat.simps [simp del]

text \<open>The candidate \<^verbatim>\<open>parent / f"{stem}_{counter}{suffix}"\<close> of \<^verbatim>\<open>_unique_name\<close>.\<close>

definition variant :: "path \<Rightarrow> nat \<Rightarrow> path" where
  "variant p counter =
     path_parent p @
       [path_stem (path_name p) @ ''_'' @ str_nat counter @ path_suffix (path_name p)]"

lemma str_nat_bound: "n < 10 ^ length (str_nat n)"
proof (induction n rule: str_nat.induct)
  case (1 n)
  show ?case
  proof (cases "n < 10")
    case True
    then show ?thesis by (simp add: str_nat.simps [of n])
  next
    case False
    with "1" have "n div 10 < 10 ^ length (str_nat (n div 10))" by simp
    then have "n < 10 * 10 ^ length (str_nat (n div 10))" by linarith
    with False show ?thesis by (simp add: str_nat.simps [of n])
  qed
qed

section \<open>\<^verbatim>\<open>_unique_name\<close>: the first unused variant of a name\<close>

text \<open>
  The source loops \<^verbatim>\<open>while True\<close> over \<open>counter = 1, 2, \<dots>\<close> until
  \<^verbatim>\<open>new_path.exists()\<close> is false. The target tree is finite and the variants grow in
  length, so some variant is unused; the distance to the first unused one is the
  measure of the loop.
\<close>

definition name_weight :: "tree \<Rightarrow> nat" where
  "name_weight t = sum_list (map (\<lambda>e. length (path_name (fst e))) t)"

lemma name_weight_ge: "map_of t p = Some n \<Longrightarrow> length (path_name p) \<le> name_weight t"
  by (induction t) (auto simp: name_weight_def split: if_splits)

lemma path_name_variant: "path_name (variant p k) = path_stem (path_name p) @ ''_'' @ str_nat k @ path_suffix (path_name p)"
  by (simp add: variant_def path_name_def)

lemma str_nat_long: "10 ^ L \<le> k \<Longrightarrow> L < length (str_nat k)"
proof (rule ccontr)
  assume a: "10 ^ L \<le> k" and "\<not> L < length (str_nat k)"
  then have "length (str_nat k) \<le> L" by simp
  then have "(10::nat) ^ length (str_nat k) \<le> 10 ^ L" by (simp add: power_increasing)
  with str_nat_bound [of k] a show False by linarith
qed

lemma variant_fresh: "\<exists>k. c \<le> k \<and> \<not> path_exists t (variant p k)"
proof -
  define k where "k = c + 10 ^ name_weight t"
  have "name_weight t < length (str_nat k)" by (rule str_nat_long) (simp add: k_def)
  then have "name_weight t < length (path_name (variant p k))" by (simp add: path_name_variant)
  then have "\<not> path_exists t (variant p k)"
    using name_weight_ge [of t "variant p k"] by (cases "map_of t (variant p k)") (auto simp: path_exists_def)
  moreover have "c \<le> k" by (simp add: k_def)
  ultimately show ?thesis by blast
qed

definition first_fresh :: "tree \<Rightarrow> path \<Rightarrow> nat \<Rightarrow> nat" where
  "first_fresh t p c = (LEAST k. c \<le> k \<and> \<not> path_exists t (variant p k))"

lemma first_fresh_step:
  assumes "path_exists t (variant p c)"
  shows "first_fresh t p (Suc c) - Suc c < first_fresh t p c - c"
proof -
  let ?P = "\<lambda>c k. c \<le> k \<and> \<not> path_exists t (variant p k)"
  have P: "?P c (first_fresh t p c)"
    unfolding first_fresh_def using variant_fresh [of c t p] by (rule exE) (rule LeastI)
  with assms have ne: "first_fresh t p c \<noteq> c" by auto
  with P have gt: "Suc c \<le> first_fresh t p c" by simp
  with P have "?P (Suc c) (first_fresh t p c)" by simp
  then have "first_fresh t p (Suc c) \<le> first_fresh t p c"
    unfolding first_fresh_def [of t p "Suc c"] by (rule Least_le)
  with gt show ?thesis by linarith
qed

function unique_name :: "tree \<Rightarrow> path \<Rightarrow> nat \<Rightarrow> path" where
  "unique_name t p counter =
     (if path_exists t (variant p counter) then unique_name t p (counter + 1)
      else variant p counter)"
  by pat_completeness auto
termination
  by (relation "measure (\<lambda>(t, p, c). first_fresh t p c - c)") (auto simp: first_fresh_step)

declare unique_name.simps [simp del]

section \<open>The merger: state, environment and log\<close>

text \<open>
  Exceptions of the Python run time that the program can meet. \<open>AttributeError\<close> is
  raised by reading \<^verbatim>\<open>self.source_files\<close>, an attribute no method assigns.
\<close>

datatype exn =
    EOFError | AttributeError | FileExistsError | FileNotFoundError | NotADirectoryError
  | IsADirectoryError | PermissionError | OSError

text \<open>
  One event per call of \<^verbatim>\<open>self.log\<close> or \<^verbatim>\<open>print\<close>, in the order of the source,
  carrying the numbers the message is formatted from (byte counts before the division
  by \<^verbatim>\<open>1024**3\<close>; elapsed times, which come from the clock, are left to the rendering).
\<close>

datatype event =
    MD5_Fehler loc
  | Scanne_Ziel
  | Dateien_gescannt int
  | Scan_Fehler path
  | Ziel_gescannt int nat
  | Trockenlauf
  | Rule
  | Analysiere_Quelle
  | Dateien_analysiert int
  | Ergebnis_Trockenlauf
  | Analysezeit
  | Quelldateien int
  | Zieldateien int
  | Bereits_vorhanden int
  | Zu_kopieren int
  | Platzbedarf int
  | Freier_Platz nat
  | Warnung_Nicht_genug_Platz
  | Fehlend int
  | Verbleibend int
  | Platzpruefung_fehlgeschlagen
  | Beispiele_vorhanden
  | Beispiele_neu
  | Beispiel path int
  | Kopiervorgang
  | Print_Quelle
  | Print_Ziel
  | Print_Neue_Dateien int
  | Print_Platzbedarf int
  | Print_Fortfahren
  | Abgebrochen_durch_Benutzer
  | Print_Trotzdem_fortfahren
  | Abgebrochen_nicht_genug_Platz
  | Beginne_mit_Kopieren
  | Fehler path exn
  | Kopiervorgang_abgeschlossen
  | Gesamtzeit
  | Durchschnitt int
  | Ergebnis
  | Ergebnis_Kopiert int
  | Ergebnis_Bereits_vorhanden int
  | Ergebnis_Fehler int
  | Durchschn_Groesse int int
  | Log_Datei
  | Print_Zum_Kopieren
  | Print_Kommando

text \<open>
  What the run takes from outside: the hash function (\<^verbatim>\<open>hashlib.md5\<close>, whose
  hex digest is never empty, so \<^verbatim>\<open>if md5:\<close> tests for \<^verbatim>\<open>None\<close> only), the text of a log
  line (time stamp and formatting; its first argument is the number of lines printed
  before), the name \<^verbatim>\<open>merge_<timestamp>.log\<close> of the log file, the free space
  \<^verbatim>\<open>shutil.disk_usage\<close> reports (\<open>None\<close> where it raises), which destinations
  \<^verbatim>\<open>shutil.copy2\<close> manages to write, and whether the clock has advanced when the
  final report is printed.
\<close>

record 'h env =
  md5 :: "string \<Rightarrow> 'h"
  render :: "nat \<Rightarrow> event \<Rightarrow> string"
  log_name :: string
  disk_free :: "nat option"
  copy2_ok :: "path \<Rightarrow> bool"
  elapsed_pos :: bool

text \<open>
  The object \<^verbatim>\<open>UnixStyleFileMerger\<close> with its index \<^verbatim>\<open>target_md5s\<close> and the six
  counters of \<^verbatim>\<open>stats\<close>, together with what it acts on: the tree under
  \<^verbatim>\<open>self.source\<close>, the tree under \<^verbatim>\<open>self.target\<close>, the lines printed so far and the
  answers still waiting on standard input.
\<close>

record 'h merger =
  target_md5s :: "'h set"
  source_files :: int
  target_files :: int
  duplicates :: int
  copied :: int
  errors :: int
  total_size :: int
  source_fs :: stree
  target_fs :: tree
  out :: "event list"
  stdin :: "string list"

definition init :: "stree \<Rightarrow> tree \<Rightarrow> string list \<Rightarrow> 'h merger" where
  "init src t answers =
     \<lparr> target_md5s = {}, source_files = 0, target_files = 0, duplicates = 0, copied = 0,
       errors = 0, total_size = 0, source_fs = src, target_fs = t, out = [],
       stdin = answers \<rparr>"

definition log_file :: "'h env \<Rightarrow> path" where
  "log_file env = [log_name env]"

definition print :: "event \<Rightarrow> 'h merger \<Rightarrow> 'h merger" where
  "print msg m = m\<lparr> out := out m @ [msg] \<rparr>"

text \<open>
  \<^verbatim>\<open>log\<close> prints the line and appends it to the log file, which lies directly under
  the target root; a failure to open the file is swallowed. The \<^verbatim>\<open>print\<close> stands
  before the \<^verbatim>\<open>try\<close>: standard output is taken to accept every line (a file name that
  it cannot encode would make \<^verbatim>\<open>print\<close>, and with it \<^verbatim>\<open>log\<close>, raise), and a
  log file that exists is taken to be writable.
\<close>

definition log :: "'h env \<Rightarrow> event \<Rightarrow> 'h merger \<Rightarrow> 'h merger" where
  "log env msg m =
     (let line = render env (length (out m)) msg;
          m1 = print msg m
      in m1\<lparr> target_fs := append_file (target_fs m1) (log_file env) (line @ [CHR 0x0A]) \<rparr>)"

definition calculate_md5 :: "'h env \<Rightarrow> loc \<Rightarrow> 'h merger \<Rightarrow> 'h option \<times> 'h merger" where
  "calculate_md5 env filepath m =
     (case read_bytes (target_fs m) filepath of
        Some bs \<Rightarrow> (Some (md5 env bs), m)
      | None \<Rightarrow> (None, log env (MD5_Fehler filepath) m))"

section \<open>\<^verbatim>\<open>scan_target\<close>\<close>

text \<open>
  The body of the loop over the files of the target. \<^verbatim>\<open>calculate_md5\<close> catches every
  exception itself and \<^verbatim>\<open>log\<close> is taken not to raise, so the handler of the loop
  (\<open>Scan_Fehler\<close>) is never entered.
\<close>

definition scan_file :: "'h env \<Rightarrow> path \<Rightarrow> int \<times> 'h merger \<Rightarrow> int \<times> 'h merger" where
  "scan_file env filepath = (\<lambda>(count, m).
     let (md5v, m1) = calculate_md5 env (Tgt filepath) m;
         m2 = (case md5v of
                 Some d \<Rightarrow> m1\<lparr> target_md5s := insert d (target_md5s m1) \<rparr>
               | None \<Rightarrow> m1);
         count1 = count + 1;
         m3 = (if count1 mod 1000 = 0 then log env (Dateien_gescannt count1) m2 else m2)
     in (count1, m3))"

definition scan_target :: "'h env \<Rightarrow> 'h merger \<Rightarrow> 'h merger" where
  "scan_target env m =
     (let m1 = log env Scanne_Ziel m;
          (count, m2) = fold (scan_file env) (walk_files (target_fs m1)) (0, m1);
          m3 = m2\<lparr> target_files := count \<rparr>
      in log env (Ziel_gescannt count (card (target_md5s m3))) m3)"

section \<open>\<^verbatim>\<open>dry_run\<close>\<close>

text \<open>
  The body of the loop over the source files: the lists \<^verbatim>\<open>to_copy\<close> and
  \<^verbatim>\<open>duplicates\<close> hold the relative path and the size of each classified file.
\<close>

type_synonym plan = "(path \<times> int) list"

definition dry_file ::
  "'h env \<Rightarrow> srcfile \<Rightarrow> plan \<times> plan \<times> 'h merger \<Rightarrow> plan \<times> plan \<times> 'h merger" where
  "dry_file env f = (\<lambda>(to_copy, dups, m).
     let size = int (length (sbytes f));
         (md5v, m1) = calculate_md5 env (Src f) m;
         (to_copy1, dups1, m2) =
           (case md5v of
              None \<Rightarrow> (to_copy, dups, m1)
            | Some d \<Rightarrow>
                (let m1a = m1\<lparr> source_files := source_files m1 + 1 \<rparr>
                 in if d \<in> target_md5s m1a
                    then (to_copy, dups @ [(spath f, size)],
                          m1a\<lparr> duplicates := duplicates m1a + 1 \<rparr>)
                    else (to_copy @ [(spath f, size)], dups,
                          m1a\<lparr> total_size := total_size m1a + size \<rparr>)));
         m3 = (if source_files m2 mod 1000 = 0
               then log env (Dateien_analysiert (source_files m2)) m2 else m2)
     in (to_copy1, dups1, m3))"

text \<open>The space check of the dry run (lines 152 to 167 of the source).\<close>

definition dry_space_check :: "'h env \<Rightarrow> plan \<Rightarrow> 'h merger \<Rightarrow> 'h merger" where
  "dry_space_check env to_copy m =
     (if to_copy \<noteq> [] then
        (let m1 = log env (Platzbedarf (total_size m)) m
         in case disk_free env of
              None \<Rightarrow> log env Platzpruefung_fehlgeschlagen m1
            | Some free \<Rightarrow>
                (let m2 = log env (Freier_Platz free) m1
                 in if int free < total_size m2
                    then log env (Fehlend (total_size m2 - int free))
                           (log env Warnung_Nicht_genug_Platz m2)
                    else log env (Verbleibend (int free - total_size m2)) m2))
      else m)"

definition show_examples :: "'h env \<Rightarrow> event \<Rightarrow> plan \<Rightarrow> 'h merger \<Rightarrow> 'h merger" where
  "show_examples env header entries m =
     (if entries \<noteq> [] \<and> length entries \<le> 10
      then fold (\<lambda>(p, size). log env (Beispiel p size)) (take 5 entries) (log env header m)
      else m)"

text \<open>The report of the dry run (lines 140 to 179).\<close>

definition dry_report :: "'h env \<Rightarrow> plan \<Rightarrow> plan \<Rightarrow> 'h merger \<Rightarrow> 'h merger" where
  "dry_report env to_copy dups m =
     (let m5 = log env Rule (log env Ergebnis_Trockenlauf (log env Rule m));
          m6 = log env Analysezeit m5;
          m7 = log env (Quelldateien (source_files m6)) m6;
          m8 = log env (Zieldateien (target_files m7)) m7;
          m9 = log env (Bereits_vorhanden (duplicates m8)) m8;
          m10 = log env (Zu_kopieren (int (length to_copy))) m9;
          m11 = dry_space_check env to_copy m10;
          m12 = show_examples env Beispiele_vorhanden dups m11
      in show_examples env Beispiele_neu to_copy m12)"

text \<open>
  The loop of line 104 runs over the files that the walk of the source yields. No
  statement of the model raises inside the outer \<^verbatim>\<open>try\<close> of \<^verbatim>\<open>dry_run\<close>, so it
  returns \<^verbatim>\<open>True\<close>.
\<close>

definition dry_run :: "'h env \<Rightarrow> 'h merger \<Rightarrow> bool \<times> 'h merger" where
  "dry_run env m =
     (let m1 = log env Rule (log env Trockenlauf m);
          m2 = scan_target env m1;
          m3 = log env Analysiere_Quelle m2;
          (to_copy, dups, m4) = fold (dry_file env) (os_walk (source_fs m3)) ([], [], m3)
      in (True, dry_report env to_copy dups m4))"

section \<open>\<^verbatim>\<open>execute\<close>\<close>

text \<open>
  \<^verbatim>\<open>Path.mkdir(parents=True, exist_ok=True)\<close>: raises \<^verbatim>\<open>FileExistsError\<close> when the
  path is a file and \<^verbatim>\<open>NotADirectoryError\<close> when one of its ancestors is, and otherwise
  creates every directory that is missing, from the root down.
\<close>

definition mkdir_parents :: "tree \<Rightarrow> path \<Rightarrow> exn + tree" where
  "mkdir_parents t p =
     (if is_file t p then Inl FileExistsError
      else if list_ex (is_file t) (prefixes p) then Inl NotADirectoryError
      else Inr (fold (\<lambda>q t1. if path_exists t1 q then t1 else t1 @ [(q, Dir)]) (prefixes p) t))"

text \<open>
  \<^verbatim>\<open>shutil.copy2(src, dst)\<close>: a destination that is a directory stands for the file of
  the source's name inside it; the copy carries the source's bytes and permissions. A
  failed copy is taken to leave the target as it was.
\<close>

definition copy2 :: "'h env \<Rightarrow> srcfile \<Rightarrow> path \<Rightarrow> tree \<Rightarrow> exn + tree" where
  "copy2 env f dst t =
     (let dst1 = (if map_of t dst = Some Dir then dst @ [path_name (spath f)] else dst)
      in if \<not> sreadable f then Inl PermissionError
         else if map_of t (path_parent dst1) \<noteq> Some Dir then Inl FileNotFoundError
         else if map_of t dst1 = Some Dir then Inl IsADirectoryError
         else if \<not> copy2_ok env dst1 then Inl OSError
         else Inr (AList.update dst1 (File (sbytes f) True) t))"

text \<open>
  Lines 258 to 270: the copy, the insertion into the index, the counter, and the
  progress message, whose f-string reads \<^verbatim>\<open>self.source_files\<close> and so raises before
  anything is logged. The first component is the exception that leaves the block.
\<close>

definition copy_and_index ::
  "'h env \<Rightarrow> srcfile \<Rightarrow> 'h \<Rightarrow> path \<Rightarrow> 'h merger \<Rightarrow> exn option \<times> 'h merger" where
  "copy_and_index env f d target_path m =
     (case copy2 env f target_path (target_fs m) of
        Inl e \<Rightarrow> (Some e, m)
      | Inr t \<Rightarrow>
          (let m1 = m\<lparr> target_fs := t \<rparr>;
               m2 = m1\<lparr> target_md5s := insert d (target_md5s m1) \<rparr>;
               m3 = m2\<lparr> copied := copied m2 + 1 \<rparr>
           in if copied m3 mod 100 = 0 then (Some AttributeError, m3) else (None, m3)))"

text \<open>
  The \<^verbatim>\<open>try\<close> block of the loop (lines 229 to 270). The destination is the source's
  relative path below the target root. \<open>None\<close> in the first component is a normal end
  of the block or a \<^verbatim>\<open>continue\<close>.
\<close>

definition try_file :: "'h env \<Rightarrow> srcfile \<Rightarrow> 'h merger \<Rightarrow> exn option \<times> 'h merger" where
  "try_file env f m =
     (let (md5v, m1) = calculate_md5 env (Src f) m
      in case md5v of
           None \<Rightarrow> (None, m1\<lparr> errors := errors m1 + 1 \<rparr>)
         | Some d \<Rightarrow>
             if d \<in> target_md5s m1 then (None, m1\<lparr> duplicates := duplicates m1 + 1 \<rparr>)
             else
               (let target_path = spath f
                in case mkdir_parents (target_fs m1) (path_parent target_path) of
                     Inl e \<Rightarrow> (Some e, m1)
                   | Inr t \<Rightarrow>
                       (let m2 = m1\<lparr> target_fs := t \<rparr>
                        in if path_exists (target_fs m2) target_path then
                             (let (target_md5, m3) = calculate_md5 env (Tgt target_path) m2
                              in if target_md5 = Some d
                                 then (None, m3\<lparr> duplicates := duplicates m3 + 1 \<rparr>)
                                 else copy_and_index env f d
                                        (unique_name (target_fs m3) target_path 1) m3)
                           else copy_and_index env f d target_path m2)))"

text \<open>The loop body with its handler (lines 272 to 274).\<close>

definition process_file :: "'h env \<Rightarrow> srcfile \<Rightarrow> 'h merger \<Rightarrow> 'h merger" where
  "process_file env f m =
     (case try_file env f m of
        (None, m1) \<Rightarrow> m1
      | (Some e, m1) \<Rightarrow> log env (Fehler (spath f) e) (m1\<lparr> errors := errors m1 + 1 \<rparr>))"

text \<open>\<^verbatim>\<open>input().lower() != 'j'\<close> is false for the answers \<^verbatim>\<open>j\<close> and \<^verbatim>\<open>J\<close>.\<close>

definition affirmative :: "string \<Rightarrow> bool" where
  "affirmative a = (a = ''j'' \<or> a = ''J'')"

datatype result = Returned bool | Raised exn

text \<open>
  The space check of \<^verbatim>\<open>execute\<close> (lines 203 to 215). The bare \<^verbatim>\<open>except\<close> also
  catches the \<^verbatim>\<open>EOFError\<close> of \<^verbatim>\<open>input\<close>. The first component tells whether the run goes on.
\<close>

definition space_gate :: "'h env \<Rightarrow> 'h merger \<Rightarrow> bool \<times> 'h merger" where
  "space_gate env m =
     (case disk_free env of
        None \<Rightarrow> (True, log env Platzpruefung_fehlgeschlagen m)
      | Some free \<Rightarrow>
          if int free < total_size m then
            (let m1 = log env Warnung_Nicht_genug_Platz m;
                 m2 = print (Fehlend (total_size m1 - int free)) m1;
                 m3 = print Print_Trotzdem_fortfahren m2
             in case stdin m3 of
                  [] \<Rightarrow> (True, log env Platzpruefung_fehlgeschlagen m3)
                | a # rest \<Rightarrow>
                    (let m4 = m3\<lparr> stdin := rest \<rparr>
                     in if \<not> affirmative a
                        then (False, log env Abgebrochen_nicht_genug_Platz m4)
                        else (True, m4)))
          else (True, m))"

definition final_report :: "'h env \<Rightarrow> 'h merger \<Rightarrow> 'h merger" where
  "final_report env m =
     (let m1 = log env Rule (log env Kopiervorgang_abgeschlossen (log env Rule m));
          m2 = log env Gesamtzeit m1;
          m3 = (if elapsed_pos env then log env (Durchschnitt (copied m2)) m2 else m2);
          m4 = log env Ergebnis m3;
          m5 = log env (Ergebnis_Kopiert (copied m4)) m4;
          m6 = log env (Ergebnis_Bereits_vorhanden (duplicates m5)) m5;
          m7 = log env (Ergebnis_Fehler (errors m6)) m6;
          m8 = (if 0 < copied m7
                then log env (Durchschn_Groesse (total_size m7) (copied m7)) m7 else m7)
      in log env Log_Datei m8)"

text \<open>
  The loop over the files that the walk of the source yields (lines 223 to 274). The
  local counter \<^verbatim>\<open>files_processed\<close> is written and never read, and is left out; so is
  the \<^verbatim>\<open>KeyboardInterrupt\<close> of the user, which is no step of the program.
\<close>

definition copy_loop :: "'h env \<Rightarrow> srcfile list \<Rightarrow> 'h merger \<Rightarrow> 'h merger" where
  "copy_loop env srcs m = fold (process_file env) srcs m"

text \<open>The head of \<^verbatim>\<open>execute\<close>: two log lines and the confirmation prompt (lines 189 to 197).\<close>

definition announce :: "'h env \<Rightarrow> 'h merger \<Rightarrow> 'h merger" where
  "announce env m =
     (let m1 = log env Rule (log env Kopiervorgang m);
          m2 = print Print_Ziel (print Print_Quelle m1);
          m3 = print (Print_Neue_Dateien (source_files m2 - duplicates m2)) m2
      in print Print_Fortfahren (print (Print_Platzbedarf (total_size m3)) m3))"

text \<open>
  The first \<^verbatim>\<open>input()\<close> stands outside every \<^verbatim>\<open>try\<close>: at the end of the input its
  \<^verbatim>\<open>EOFError\<close> leaves \<^verbatim>\<open>execute\<close>.
\<close>

definition execute :: "'h env \<Rightarrow> 'h merger \<Rightarrow> result \<times> 'h merger" where
  "execute env m =
     (let m4 = announce env m
      in case stdin m4 of
           [] \<Rightarrow> (Raised EOFError, m4)
         | a # rest \<Rightarrow>
             (let m5 = m4\<lparr> stdin := rest \<rparr>
              in if \<not> affirmative a
                 then (Returned False, log env Abgebrochen_durch_Benutzer m5)
                 else
                   (case space_gate env m5 of
                      (False, m6) \<Rightarrow> (Returned False, m6)
                    | (True, m6) \<Rightarrow>
                        (let m7 = log env Beginne_mit_Kopieren m6;
                             m8 = copy_loop env (os_walk (source_fs m7)) m7
                         in (Returned True, final_report env m8)))))"

section \<open>\<^verbatim>\<open>main\<close>\<close>

text \<open>
  The argument parser lets exactly one of the two modes through. \<^verbatim>\<open>main\<close> builds a
  fresh merger on the two trees and calls \<^verbatim>\<open>dry_run\<close> or \<^verbatim>\<open>execute\<close>; the result
  is the exit status
  (an exception that nothing catches ends the process with status 1) and the final
  state.
\<close>

datatype mode = Dry_run | Execute

definition main :: "'h env \<Rightarrow> mode \<Rightarrow> stree \<Rightarrow> tree \<Rightarrow> string list \<Rightarrow> int \<times> 'h merger" where
  "main env md src t answers =
     (let merger = init src t answers
      in case md of
           Dry_run \<Rightarrow>
             (let (success, m1) = dry_run env merger;
                  m2 = (if success
                        then print Rule (print Print_Kommando (print Print_Zum_Kopieren (print Rule m1)))
                        else m1)
              in (if success then 0 else 1, m2))
         | Execute \<Rightarrow>
             (case execute env merger of
                (Returned success, m1) \<Rightarrow> (if success then 0 else 1, m1)
              | (Raised e, m1) \<Rightarrow> (1, m1)))"

section \<open>What a log line may change\<close>

text \<open>
  \<open>appended lp t t1\<close>: the tree \<open>t1\<close> is \<open>t\<close> except at the path \<open>lp\<close>, where a
  file may have been created or may have grown at its end.
\<close>

definition appended :: "path \<Rightarrow> tree \<Rightarrow> tree \<Rightarrow> bool" where
  "appended lp t t1 =
     ((\<forall>p. p \<noteq> lp \<longrightarrow> map_of t1 p = map_of t p) \<and>
      (case map_of t lp of
         None \<Rightarrow> map_of t1 lp = None \<or> (\<exists>s. map_of t1 lp = Some (File s True))
       | Some Dir \<Rightarrow> map_of t1 lp = Some Dir
       | Some (File c r) \<Rightarrow> (\<exists>s. map_of t1 lp = Some (File (c @ s) r))))"

text \<open>
  \<open>logged env m m1\<close>: from \<open>m\<close> to \<open>m1\<close> the counters, the index, the source tree
  and the pending input are the same, lines were printed, and the target tree changed
  at the log file only.
\<close>

definition logged :: "'h env \<Rightarrow> 'h merger \<Rightarrow> 'h merger \<Rightarrow> bool" where
  "logged env m m1 =
     (target_md5s m1 = target_md5s m \<and> source_files m1 = source_files m \<and>
      target_files m1 = target_files m \<and> duplicates m1 = duplicates m \<and>
      copied m1 = copied m \<and> errors m1 = errors m \<and> total_size m1 = total_size m \<and>
      source_fs m1 = source_fs m \<and>
      stdin m1 = stdin m \<and> prefix (out m) (out m1) \<and>
      appended (log_file env) (target_fs m) (target_fs m1))"

text \<open>
  \<open>dry_frame env m m1\<close>: what every step of the dry run keeps. The error and copy
  counters, the source tree and the pending input are the same, lines were printed, and
  the target tree changed at the log file only. (The index and the other counters may
  have changed.)
\<close>

definition dry_frame :: "'h env \<Rightarrow> 'h merger \<Rightarrow> 'h merger \<Rightarrow> bool" where
  "dry_frame env m m1 =
     (errors m1 = errors m \<and> copied m1 = copied m \<and> source_fs m1 = source_fs m \<and>
      stdin m1 = stdin m \<and>
      prefix (out m) (out m1) \<and> appended (log_file env) (target_fs m) (target_fs m1))"

text \<open>
  \<open>stored env t f\<close>: some path of the tree other than the log file holds a file with
  the bytes of \<open>f\<close>.
\<close>

definition stored :: "'h env \<Rightarrow> tree \<Rightarrow> srcfile \<Rightarrow> bool" where
  "stored env t f =
     list_ex (\<lambda>p. p \<noteq> log_file env \<and>
                  (case map_of t p of
                     None \<Rightarrow> False
                   | Some Dir \<Rightarrow> False
                   | Some (File c r) \<Rightarrow> c = sbytes f)) (map fst t)"

text \<open>
  \<open>sound env C m\<close>, the invariant of the copy loop: the log file exists, every hash of
  the index is the hash of a file of the tree other than the log file, and the bytes of
  every such file are in \<open>C\<close>.
\<close>

definition sound :: "'h env \<Rightarrow> string set \<Rightarrow> 'h merger \<Rightarrow> bool" where
  "sound env C m =
     (path_exists (target_fs m) (log_file env) \<and>
      (\<forall>d\<in>target_md5s m. \<exists>p c r. p \<noteq> log_file env \<and>
           map_of (target_fs m) p = Some (File c r) \<and> md5 env c = d) \<and>
      (\<forall>p c r. p \<noteq> log_file env \<and> map_of (target_fs m) p = Some (File c r) \<longrightarrow> c \<in> C))"

text \<open>\<open>grows env t t1\<close>: every path of \<open>t\<close> other than the log file holds in \<open>t1\<close> what it held.\<close>

definition grows :: "'h env \<Rightarrow> tree \<Rightarrow> tree \<Rightarrow> bool" where
  "grows env t t1 = (\<forall>p n. p \<noteq> log_file env \<and> map_of t p = Some n \<longrightarrow> map_of t1 p = Some n)"

text \<open>
  \<open>loop_start env m\<close>: the state in which the copy loop of \<^verbatim>\<open>execute\<close> begins, when
  \<^verbatim>\<open>execute\<close> is called in \<open>m\<close> and gets that far: after the head, the first answer,
  the space check and the line that announces the copying.
\<close>

definition loop_start :: "'h env \<Rightarrow> 'h merger \<Rightarrow> 'h merger" where
  "loop_start env m =
     log env Beginne_mit_Kopieren
       (snd (space_gate env ((announce env m)\<lparr> stdin := tl (stdin m) \<rparr>)))"

text \<open>
  \<open>loop_state env src t answers pre\<close>: the state of a run of \<^verbatim>\<open>main\<close> in execute mode
  on the source \<open>src\<close> and the target \<open>t\<close> when the copy loop has passed over the files
  \<open>pre\<close>.
\<close>

definition loop_state :: "'h env \<Rightarrow> stree \<Rightarrow> tree \<Rightarrow> string list \<Rightarrow> srcfile list \<Rightarrow> 'h merger" where
  "loop_state env src t answers pre = copy_loop env pre (loop_start env (init src t answers))"

text \<open>\<open>unwarned m\<close>: the warning of the space check is not among the lines printed.\<close>

definition unwarned :: "'h merger \<Rightarrow> bool" where
  "unwarned m = (Warnung_Nicht_genug_Platz \<notin> set (out m))"

text \<open>An environment for the evaluations below: the identity as hash, one fixed line, 100 bytes free.\<close>

definition demo_env :: "string env" where
  "demo_env = \<lparr> md5 = (\<lambda>s. s), render = (\<lambda>n e. ''line''), log_name = ''merge.log'',
      disk_free = Some 100, copy2_ok = (\<lambda>p. True), elapsed_pos = True \<rparr>"

section \<open>Logging changes the log file and nothing else\<close>

lemma appended_refl [simp]: "appended lp t t"
  by (auto simp: appended_def split: option.splits node.splits)

lemma appended_trans: "appended lp t t1 \<Longrightarrow> appended lp t1 t2 \<Longrightarrow> appended lp t t2"
  unfolding appended_def
  by (cases "map_of t lp"; cases "map_of t1 lp") (auto split: node.splits)

lemma appended_lookup: "appended lp t t1 \<Longrightarrow> p \<noteq> lp \<Longrightarrow> map_of t1 p = map_of t p"
  by (simp add: appended_def)

lemma appended_exists: "appended lp t t1 \<Longrightarrow> path_exists t lp \<Longrightarrow> path_exists t1 lp"
  by (auto simp: appended_def path_exists_def split: option.splits node.splits)

lemma appended_append_file: "appended lp t (append_file t lp s)"
  by (auto simp: appended_def append_file_def update_conv' map_add_def split: option.splits node.splits)

lemma append_file_creates:
  "map_of t (path_parent lp) = Some Dir \<Longrightarrow> path_exists (append_file t lp s) lp"
  by (auto simp: append_file_def path_exists_def update_conv' map_add_def split: option.splits node.splits)

lemma print_fields [simp]:
  "target_md5s (print e m) = target_md5s m"
  "source_files (print e m) = source_files m"
  "target_files (print e m) = target_files m"
  "duplicates (print e m) = duplicates m"
  "copied (print e m) = copied m"
  "errors (print e m) = errors m"
  "total_size (print e m) = total_size m"
  "source_fs (print e m) = source_fs m"
  "target_fs (print e m) = target_fs m"
  "stdin (print e m) = stdin m"
  "out (print e m) = out m @ [e]"
  by (simp_all add: print_def)

lemma log_fields [simp]:
  "target_md5s (log env e m) = target_md5s m"
  "source_files (log env e m) = source_files m"
  "target_files (log env e m) = target_files m"
  "duplicates (log env e m) = duplicates m"
  "copied (log env e m) = copied m"
  "errors (log env e m) = errors m"
  "total_size (log env e m) = total_size m"
  "source_fs (log env e m) = source_fs m"
  "stdin (log env e m) = stdin m"
  "out (log env e m) = out m @ [e]"
  by (simp_all add: log_def print_def Let_def)

lemma log_target_fs:
  "target_fs (log env e m) =
     append_file (target_fs m) (log_file env) (render env (length (out m)) e @ [CHR 0x0A])"
  by (simp add: log_def print_def Let_def)

lemma log_appended [simp]: "appended (log_file env) (target_fs m) (target_fs (log env e m))"
  by (simp add: log_target_fs appended_append_file)

lemma log_creates:
  "map_of (target_fs m) [] = Some Dir \<Longrightarrow> path_exists (target_fs (log env e m)) (log_file env)"
  by (simp add: log_target_fs append_file_creates log_file_def path_parent_def)

lemma logged_refl [simp]: "logged env m m"
  by (simp add: logged_def)

lemma logged_trans: "logged env m m1 \<Longrightarrow> logged env m1 m2 \<Longrightarrow> logged env m m2"
  by (auto simp: logged_def intro: appended_trans prefix_order.trans)

lemma logged_log [simp]: "logged env m (log env e m)"
  by (simp add: logged_def)

lemma logged_print [simp]: "logged env m (print e m)"
  by (simp add: logged_def)

lemma logged_log_trans [simp]: "logged env m m1 \<Longrightarrow> logged env m (log env e m1)"
  by (erule logged_trans) simp

lemma logged_print_trans [simp]: "logged env m m1 \<Longrightarrow> logged env m (print e m1)"
  by (erule logged_trans) simp

lemma calculate_md5_fst [simp]:
  "fst (calculate_md5 env l m) = map_option (md5 env) (read_bytes (target_fs m) l)"
  by (simp add: calculate_md5_def split: option.splits)

lemma calculate_md5_snd:
  "snd (calculate_md5 env l m) =
     (if read_bytes (target_fs m) l = None then log env (MD5_Fehler l) m else m)"
  by (simp add: calculate_md5_def split: option.splits)

lemma calculate_md5_logged [simp]: "logged env m (snd (calculate_md5 env l m))"
  by (simp add: calculate_md5_snd)

lemma show_examples_logged [simp]: "logged env m (show_examples env h es m)"
proof -
  have "logged env m (fold (\<lambda>(p, size). log env (Beispiel p size)) xs m1)"
    if "logged env m m1" for xs m1
    using that by (induction xs arbitrary: m1) (auto simp: split_def)
  then show ?thesis by (simp add: show_examples_def)
qed

lemma dry_space_check_logged [simp]: "logged env m (dry_space_check env tc m)"
  by (simp add: dry_space_check_def Let_def split: option.splits)

lemma final_report_logged [simp]: "logged env m (final_report env m)"
  by (simp add: final_report_def Let_def)

section \<open>Directories, copies and unused names\<close>

lemma mkdir_step_lookup:
  "map_of (if path_exists t q then t else t @ [(q, Dir)]) x =
     (if map_of t x = None \<and> x = q then Some Dir else map_of t x)"
  by (auto simp: path_exists_def map_add_def split: option.splits)

lemma mkdir_fold_lookup:
  "map_of (fold (\<lambda>q t1. if path_exists t1 q then t1 else t1 @ [(q, Dir)]) qs t) x =
     (if map_of t x = None \<and> x \<in> set qs then Some Dir else map_of t x)"
proof (induction qs arbitrary: t)
  case Nil
  show ?case by simp
next
  case (Cons q qs)
  show ?case
    by (simp only: fold_simps Cons.IH mkdir_step_lookup) auto
qed

lemma mkdir_parents_lookup:
  "mkdir_parents t p = Inr t1 \<Longrightarrow>
     map_of t1 x = (if map_of t x = None \<and> prefix x p then Some Dir else map_of t x)"
  by (auto simp: mkdir_parents_def mkdir_fold_lookup split: if_splits)

lemma mkdir_parents_no_file:
  "mkdir_parents t p = Inr t1 \<Longrightarrow> prefix q p \<Longrightarrow> \<not> is_file t q"
  by (auto simp: mkdir_parents_def list_ex_iff split: if_splits)

lemma mkdir_parents_dir: "mkdir_parents t p = Inr t1 \<Longrightarrow> map_of t1 p = Some Dir"
  using mkdir_parents_no_file [of t p t1 p]
  by (auto simp: mkdir_parents_lookup is_file_def split: option.splits node.splits)

lemma mkdir_parents_keeps:
  "mkdir_parents t p = Inr t1 \<Longrightarrow> map_of t x = Some n \<Longrightarrow> map_of t1 x = Some n"
  by (simp add: mkdir_parents_lookup)

lemma mkdir_parents_files:
  "mkdir_parents t p = Inr t1 \<Longrightarrow> map_of t1 x = Some (File c r) \<Longrightarrow> map_of t x = Some (File c r)"
  by (auto simp: mkdir_parents_lookup split: if_splits)

lemma mkdir_parents_same:
  "\<not> list_ex (\<lambda>q. map_of t q \<noteq> Some Dir) (prefixes p) \<Longrightarrow> mkdir_parents t p = Inr t"
proof -
  assume a: "\<not> list_ex (\<lambda>q. map_of t q \<noteq> Some Dir) (prefixes p)"
  have "fold (\<lambda>q t1. if path_exists t1 q then t1 else t1 @ [(q, Dir)]) qs t = t"
    if "\<forall>q\<in>set qs. map_of t q = Some Dir" for qs
    using that by (induction qs) (auto simp: path_exists_def)
  moreover from a have "\<forall>q\<in>set (prefixes p). map_of t q = Some Dir"
    by (auto simp: list_ex_iff)
  moreover from a have "\<not> list_ex (is_file t) (prefixes p)"
    by (auto simp: list_ex_iff is_file_def)
  moreover from a have "\<not> is_file t p"
    by (auto simp: list_ex_iff is_file_def)
  ultimately show ?thesis by (simp add: mkdir_parents_def)
qed

lemma update_fresh: "map_of t k = None \<Longrightarrow> AList.update k v t = t @ [(k, v)]"
  by (induction t) (auto split: if_splits)

lemma copy2_fresh:
  assumes "copy2 env f dst t = Inr t1" and "\<not> path_exists t dst"
  shows "t1 = t @ [(dst, File (sbytes f) True)]"
    and "sreadable f" and "copy2_ok env dst" and "map_of t (path_parent dst) = Some Dir"
  using assms
  by (auto simp: copy2_def path_exists_def update_fresh Let_def split: if_splits)

lemma copy2_fresh_lookup:
  assumes "copy2 env f dst t = Inr t1" and "\<not> path_exists t dst"
  shows "map_of t1 x = (if x = dst then Some (File (sbytes f) True) else map_of t x)"
  using assms(2) unfolding copy2_fresh(1) [OF assms]
  by (auto simp: path_exists_def map_add_def split: option.splits)

lemma copy2_succeeds:
  "sreadable f \<Longrightarrow> \<not> path_exists t dst \<Longrightarrow> map_of t (path_parent dst) = Some Dir \<Longrightarrow>
   copy2_ok env dst \<Longrightarrow> copy2 env f dst t = Inr (t @ [(dst, File (sbytes f) True)])"
  by (auto simp: copy2_def path_exists_def update_fresh)

lemma unique_name_fresh: "\<not> path_exists t (unique_name t p c)"
  by (induction t p c rule: unique_name.induct) (simp add: unique_name.simps)

lemma unique_name_variant:
  "\<exists>k\<ge>c. unique_name t p c = variant p k \<and> (\<forall>j. c \<le> j \<and> j < k \<longrightarrow> path_exists t (variant p j))"
proof (induction t p c rule: unique_name.induct)
  case (1 t p c)
  show ?case
  proof (cases "path_exists t (variant p c)")
    case False
    then have "unique_name t p c = variant p c" by (simp add: unique_name.simps)
    then show ?thesis by auto
  next
    case True
    with "1" obtain k where k: "c + 1 \<le> k" "unique_name t p (c + 1) = variant p k"
      "\<forall>j. c + 1 \<le> j \<and> j < k \<longrightarrow> path_exists t (variant p j)" by auto
    from True have "unique_name t p c = unique_name t p (c + 1)"
      by (simp add: unique_name.simps [of t p c])
    moreover have "\<forall>j. c \<le> j \<and> j < k \<longrightarrow> path_exists t (variant p j)"
    proof (intro allI impI)
      fix j assume "c \<le> j \<and> j < k"
      then have "j = c \<or> (c + 1 \<le> j \<and> j < k)" by auto
      with True k(3) show "path_exists t (variant p j)" by auto
    qed
    ultimately show ?thesis using k(1,2) by (intro exI [of _ k]) auto
  qed
qed

lemma path_parent_variant [simp]: "path_parent (variant p k) = path_parent p"
  by (simp add: variant_def path_parent_def)

lemma path_parent_unique_name [simp]: "path_parent (unique_name t p c) = path_parent p"
  using unique_name_variant [of c t p] by auto

section \<open>The outcomes of one pass through the copy loop\<close>

lemma logged_counters:
  assumes "logged env m m1"
  shows "target_md5s m1 = target_md5s m" "duplicates m1 = duplicates m" "copied m1 = copied m"
    "errors m1 = errors m" "total_size m1 = total_size m" "stdin m1 = stdin m"
    "source_files m1 = source_files m" "target_files m1 = target_files m"
    "source_fs m1 = source_fs m"
  using assms by (simp_all add: logged_def)

lemma logged_tree: "logged env m m1 \<Longrightarrow> appended (log_file env) (target_fs m) (target_fs m1)"
  by (simp add: logged_def)

text \<open>
  Every way through \<^verbatim>\<open>process_file\<close>, with the state it ends in. In the three cases of
  a copy, \<open>m3\<close> is the state before the copy (the directories made, and a line logged
  when the file in the way could not be read) and \<open>dst\<close> the destination, which is
  unused.
\<close>

lemma process_file_cases [case_names unreadable indexed mkdir_failed same_path copy_failed copied progress]:
  assumes "\<not> sreadable f \<Longrightarrow>
      P ((log env (MD5_Fehler (Src f)) m)\<lparr> errors := errors m + 1 \<rparr>)"
    and "sreadable f \<Longrightarrow> md5 env (sbytes f) \<in> target_md5s m \<Longrightarrow>
      P (m\<lparr> duplicates := duplicates m + 1 \<rparr>)"
    and "\<And>e. sreadable f \<Longrightarrow> md5 env (sbytes f) \<notin> target_md5s m \<Longrightarrow>
      mkdir_parents (target_fs m) (path_parent (spath f)) = Inl e \<Longrightarrow>
      P (log env (Fehler (spath f) e) (m\<lparr> errors := errors m + 1 \<rparr>))"
    and "\<And>t c. sreadable f \<Longrightarrow> md5 env (sbytes f) \<notin> target_md5s m \<Longrightarrow>
      mkdir_parents (target_fs m) (path_parent (spath f)) = Inr t \<Longrightarrow>
      map_of t (spath f) = Some (File c True) \<Longrightarrow> md5 env c = md5 env (sbytes f) \<Longrightarrow>
      P (m\<lparr> target_fs := t, duplicates := duplicates m + 1 \<rparr>)"
    and "\<And>t m3 dst e. sreadable f \<Longrightarrow> md5 env (sbytes f) \<notin> target_md5s m \<Longrightarrow>
      mkdir_parents (target_fs m) (path_parent (spath f)) = Inr t \<Longrightarrow>
      logged env (m\<lparr> target_fs := t \<rparr>) m3 \<Longrightarrow>
      \<not> path_exists (target_fs m3) dst \<Longrightarrow> path_parent dst = path_parent (spath f) \<Longrightarrow>
      copy2 env f dst (target_fs m3) = Inl e \<Longrightarrow>
      P (log env (Fehler (spath f) e) (m3\<lparr> errors := errors m + 1 \<rparr>))"
    and "\<And>t m3 dst t1. sreadable f \<Longrightarrow> md5 env (sbytes f) \<notin> target_md5s m \<Longrightarrow>
      mkdir_parents (target_fs m) (path_parent (spath f)) = Inr t \<Longrightarrow>
      logged env (m\<lparr> target_fs := t \<rparr>) m3 \<Longrightarrow>
      \<not> path_exists (target_fs m3) dst \<Longrightarrow> path_parent dst = path_parent (spath f) \<Longrightarrow>
      copy2 env f dst (target_fs m3) = Inr t1 \<Longrightarrow> (copied m + 1) mod 100 \<noteq> 0 \<Longrightarrow>
      P (m3\<lparr> target_fs := t1, target_md5s := insert (md5 env (sbytes f)) (target_md5s m),
              copied := copied m + 1 \<rparr>)"
    and "\<And>t m3 dst t1. sreadable f \<Longrightarrow> md5 env (sbytes f) \<notin> target_md5s m \<Longrightarrow>
      mkdir_parents (target_fs m) (path_parent (spath f)) = Inr t \<Longrightarrow>
      logged env (m\<lparr> target_fs := t \<rparr>) m3 \<Longrightarrow>
      \<not> path_exists (target_fs m3) dst \<Longrightarrow> path_parent dst = path_parent (spath f) \<Longrightarrow>
      copy2 env f dst (target_fs m3) = Inr t1 \<Longrightarrow> (copied m + 1) mod 100 = 0 \<Longrightarrow>
      P (log env (Fehler (spath f) AttributeError)
           (m3\<lparr> target_fs := t1, target_md5s := insert (md5 env (sbytes f)) (target_md5s m),
                 copied := copied m + 1, errors := errors m + 1 \<rparr>))"
  shows "P (process_file env f m)"
proof (cases "sreadable f")
  case False
  then have "process_file env f m = (log env (MD5_Fehler (Src f)) m)\<lparr> errors := errors m + 1 \<rparr>"
    by (simp add: process_file_def try_file_def calculate_md5_def)
  with False assms(1) show ?thesis by simp
next
  case readable: True
  let ?d = "md5 env (sbytes f)"
  show ?thesis
  proof (cases "?d \<in> target_md5s m")
    case True
    with readable have "process_file env f m = m\<lparr> duplicates := duplicates m + 1 \<rparr>"
      by (simp add: process_file_def try_file_def calculate_md5_def)
    with readable True assms(2) show ?thesis by simp
  next
    case fresh: False
    show ?thesis
    proof (cases "mkdir_parents (target_fs m) (path_parent (spath f))")
      case (Inl e)
      with readable fresh
      have "process_file env f m = log env (Fehler (spath f) e) (m\<lparr> errors := errors m + 1 \<rparr>)"
        by (simp add: process_file_def try_file_def calculate_md5_def)
      with readable fresh Inl assms(3) show ?thesis by simp
    next
      case (Inr t)
      let ?m2 = "m\<lparr> target_fs := t \<rparr>"
      have copy: "P (case copy_and_index env f ?d dst m3 of
                       (None, m1) \<Rightarrow> m1
                     | (Some e, m1) \<Rightarrow> log env (Fehler (spath f) e) (m1\<lparr> errors := errors m1 + 1 \<rparr>))"
        if l: "logged env ?m2 m3" and d: "\<not> path_exists (target_fs m3) dst"
          and pp: "path_parent dst = path_parent (spath f)" for m3 dst
      proof (cases "copy2 env f dst (target_fs m3)")
        case (Inl e)
        then have "(case copy_and_index env f ?d dst m3 of
                       (None, m1) \<Rightarrow> m1
                     | (Some e, m1) \<Rightarrow> log env (Fehler (spath f) e) (m1\<lparr> errors := errors m1 + 1 \<rparr>))
                 = log env (Fehler (spath f) e) (m3\<lparr> errors := errors m + 1 \<rparr>)"
          using logged_counters [OF l] by (simp add: copy_and_index_def)
        with assms(5) [OF readable fresh Inr l d pp Inl] show ?thesis by simp
      next
        case c: (Inr t1)
        show ?thesis
        proof (cases "(copied m + 1) mod 100 = 0")
          case True
          with c have "(case copy_and_index env f ?d dst m3 of
                       (None, m1) \<Rightarrow> m1
                     | (Some e, m1) \<Rightarrow> log env (Fehler (spath f) e) (m1\<lparr> errors := errors m1 + 1 \<rparr>))
                 = log env (Fehler (spath f) AttributeError)
                     (m3\<lparr> target_fs := t1, target_md5s := insert ?d (target_md5s m),
                         copied := copied m + 1, errors := errors m + 1 \<rparr>)"
            using logged_counters [OF l] by (simp add: copy_and_index_def Let_def)
          with assms(7) [OF readable fresh Inr l d pp c True] show ?thesis by simp
        next
          case False
          with c have "(case copy_and_index env f ?d dst m3 of
                       (None, m1) \<Rightarrow> m1
                     | (Some e, m1) \<Rightarrow> log env (Fehler (spath f) e) (m1\<lparr> errors := errors m1 + 1 \<rparr>))
                 = m3\<lparr> target_fs := t1, target_md5s := insert ?d (target_md5s m),
                         copied := copied m + 1 \<rparr>"
            using logged_counters [OF l] by (simp add: copy_and_index_def Let_def)
          with assms(6) [OF readable fresh Inr l d pp c False] show ?thesis by simp
        qed
      qed
      show ?thesis
      proof (cases "path_exists t (spath f)")
        case False
        with readable fresh Inr
        have "process_file env f m =
                (case copy_and_index env f ?d (spath f) ?m2 of
                       (None, m1) \<Rightarrow> m1
                     | (Some e, m1) \<Rightarrow> log env (Fehler (spath f) e) (m1\<lparr> errors := errors m1 + 1 \<rparr>))"
          by (simp add: process_file_def try_file_def calculate_md5_def)
        with copy [of ?m2 "spath f"] False show ?thesis by simp
      next
        case ex: True
        show ?thesis
        proof (cases "map_option (md5 env) (read_bytes t (Tgt (spath f))) = Some ?d")
          case True
          then obtain c where c: "map_of t (spath f) = Some (File c True)" "md5 env c = ?d"
            by (auto split: option.splits node.splits if_splits)
          with readable fresh Inr ex
          have "process_file env f m = m\<lparr> target_fs := t, duplicates := duplicates m + 1 \<rparr>"
            by (simp add: process_file_def try_file_def calculate_md5_def)
          with assms(4) [OF readable fresh Inr c] show ?thesis by simp
        next
          case False
          let ?m3 = "snd (calculate_md5 env (Tgt (spath f)) ?m2)"
          obtain a b where ab: "calculate_md5 env (Tgt (spath f)) ?m2 = (a, b)"
            by (cases "calculate_md5 env (Tgt (spath f)) ?m2")
          from ab have a: "a = map_option (md5 env) (read_bytes t (Tgt (spath f)))"
            using calculate_md5_fst [of env "Tgt (spath f)" ?m2] by simp
          from ab have b: "b = ?m3" by simp
          have src: "calculate_md5 env (Src f) m = (Some ?d, m)"
            using readable by (simp add: calculate_md5_def)
          from False a have ne: "a \<noteq> Some ?d" by simp
          have "process_file env f m =
                (case copy_and_index env f ?d (unique_name (target_fs b) (spath f) 1) b of
                       (None, m1) \<Rightarrow> m1
                     | (Some e, m1) \<Rightarrow> log env (Fehler (spath f) e) (m1\<lparr> errors := errors m1 + 1 \<rparr>))"
            using fresh Inr ex ne by (simp add: process_file_def try_file_def src ab)
          then have "process_file env f m =
                (case copy_and_index env f ?d (unique_name (target_fs ?m3) (spath f) 1) ?m3 of
                       (None, m1) \<Rightarrow> m1
                     | (Some e, m1) \<Rightarrow> log env (Fehler (spath f) e) (m1\<lparr> errors := errors m1 + 1 \<rparr>))"
            by (simp only: b)
          with copy [of ?m3 "unique_name (target_fs ?m3) (spath f) 1"]
          show ?thesis by (simp add: unique_name_fresh)
        qed
      qed
    qed
  qed
qed

section \<open>The index only grows\<close>

lemma scan_file_index:
  "target_md5s (snd (scan_file env p (c, m))) =
     (case read_bytes (target_fs m) (Tgt p) of
        None \<Rightarrow> target_md5s m
      | Some bs \<Rightarrow> insert (md5 env bs) (target_md5s m))"
  by (simp add: scan_file_def calculate_md5_def Let_def split: option.splits)

lemma scan_file_mono: "target_md5s (snd cm) \<subseteq> target_md5s (snd (scan_file env p cm))"
  by (cases cm) (auto simp: scan_file_index split: option.splits)

lemma scan_fold_mono:
  "target_md5s (snd cm) \<subseteq> target_md5s (snd (fold (scan_file env) ps cm))"
proof (induction ps arbitrary: cm)
  case Nil
  show ?case by simp
next
  case (Cons p ps)
  have "target_md5s (snd cm) \<subseteq> target_md5s (snd (scan_file env p cm))"
    by (rule scan_file_mono)
  also have "\<dots> \<subseteq> target_md5s (snd (fold (scan_file env) ps (scan_file env p cm)))"
    by (rule Cons.IH)
  finally show ?case by simp
qed

lemma scan_target_mono: "target_md5s m \<subseteq> target_md5s (scan_target env m)"
  using scan_fold_mono [of "(0, log env Scanne_Ziel m)" env]
  by (simp add: scan_target_def Let_def split_def)

lemma dry_file_index [simp]:
  "target_md5s (snd (snd (dry_file env f x))) = target_md5s (snd (snd x))"
  by (cases x) (simp add: dry_file_def calculate_md5_def Let_def split: option.splits)

lemma dry_fold_index [simp]:
  "target_md5s (snd (snd (fold (dry_file env) fs x))) = target_md5s (snd (snd x))"
  by (induction fs arbitrary: x) simp_all

lemma dry_report_logged [simp]: "logged env m (dry_report env tc dups m)"
proof -
  have a: "logged env m m1 \<Longrightarrow> logged env m (dry_space_check env tc m1)" for m1
    by (erule logged_trans) simp
  have b: "logged env m m1 \<Longrightarrow> logged env m (show_examples env h es m1)" for m1 h es
    by (erule logged_trans) simp
  show ?thesis by (simp add: dry_report_def Let_def a b)
qed

lemma dry_run_mono: "target_md5s m \<subseteq> target_md5s (snd (dry_run env m))"
  using scan_target_mono [of "log env Rule (log env Trockenlauf m)" env]
  by (simp add: dry_run_def Let_def split_def logged_counters [OF dry_report_logged])

lemma process_file_index:
  "target_md5s (process_file env f m) = target_md5s m \<or>
   target_md5s (process_file env f m) = insert (md5 env (sbytes f)) (target_md5s m)"
  by (rule process_file_cases [where P = "\<lambda>x. target_md5s x = target_md5s m \<or>
        target_md5s x = insert (md5 env (sbytes f)) (target_md5s m)"])
     (simp_all add: logged_counters)

lemma process_file_mono: "target_md5s m \<subseteq> target_md5s (process_file env f m)"
  using process_file_index [of env f m] by auto

lemma copy_loop_mono: "target_md5s m \<subseteq> target_md5s (copy_loop env fs m)"
proof (induction fs arbitrary: m)
  case Nil
  show ?case by (simp add: copy_loop_def)
next
  case (Cons f fs)
  have "target_md5s m \<subseteq> target_md5s (process_file env f m)"
    by (rule process_file_mono)
  also have "\<dots> \<subseteq> target_md5s (copy_loop env fs (process_file env f m))"
    by (rule Cons.IH)
  finally show ?case by (simp add: copy_loop_def)
qed

lemma copy_loop_append: "copy_loop env (pre @ post) m = copy_loop env post (copy_loop env pre m)"
  by (simp add: copy_loop_def)

lemma announce_logged [simp]: "logged env m (announce env m)"
  by (simp add: announce_def Let_def)

text \<open>The ways through \<^verbatim>\<open>execute\<close>.\<close>

lemma space_gate_cases [case_names unknown enough eof declined agreed]:
  assumes "disk_free env = None \<Longrightarrow> P (True, log env Platzpruefung_fehlgeschlagen m)"
    and "\<And>free. disk_free env = Some free \<Longrightarrow> \<not> int free < total_size m \<Longrightarrow> P (True, m)"
    and "\<And>free. disk_free env = Some free \<Longrightarrow> int free < total_size m \<Longrightarrow> stdin m = [] \<Longrightarrow>
       P (True, log env Platzpruefung_fehlgeschlagen
            (print Print_Trotzdem_fortfahren (print (Fehlend (total_size m - int free))
               (log env Warnung_Nicht_genug_Platz m))))"
    and "\<And>free a rest. disk_free env = Some free \<Longrightarrow> int free < total_size m \<Longrightarrow>
       stdin m = a # rest \<Longrightarrow> \<not> affirmative a \<Longrightarrow>
       P (False, log env Abgebrochen_nicht_genug_Platz
            ((print Print_Trotzdem_fortfahren (print (Fehlend (total_size m - int free))
               (log env Warnung_Nicht_genug_Platz m)))\<lparr> stdin := rest \<rparr>))"
    and "\<And>free a rest. disk_free env = Some free \<Longrightarrow> int free < total_size m \<Longrightarrow>
       stdin m = a # rest \<Longrightarrow> affirmative a \<Longrightarrow>
       P (True, (print Print_Trotzdem_fortfahren (print (Fehlend (total_size m - int free))
               (log env Warnung_Nicht_genug_Platz m)))\<lparr> stdin := rest \<rparr>)"
  shows "P (space_gate env m)"
proof (cases "disk_free env")
  case None
  with assms(1) show ?thesis by (simp add: space_gate_def)
next
  case (Some free)
  show ?thesis
  proof (cases "int free < total_size m")
    case False
    with Some assms(2) show ?thesis by (simp add: space_gate_def)
  next
    case True
    show ?thesis
    proof (cases "stdin m")
      case Nil
      with Some True assms(3) show ?thesis by (simp add: space_gate_def Let_def)
    next
      case (Cons a rest)
      with Some True assms(4) [of free a rest] assms(5) [of free a rest] show ?thesis
        by (cases "affirmative a") (simp_all add: space_gate_def Let_def)
    qed
  qed
qed

lemma space_gate_index [simp]: "target_md5s (snd (space_gate env m)) = target_md5s m"
  by (rule space_gate_cases [where P = "\<lambda>x. target_md5s (snd x) = target_md5s m"]) simp_all

lemma space_gate_source [simp]: "source_fs (snd (space_gate env m)) = source_fs m"
  by (rule space_gate_cases [where P = "\<lambda>x. source_fs (snd x) = source_fs m"]) simp_all

lemma execute_cases [case_names eof declined no_space run]:
  assumes "stdin m = [] \<Longrightarrow> P (Raised EOFError, announce env m)"
    and "\<And>a rest. stdin m = a # rest \<Longrightarrow> \<not> affirmative a \<Longrightarrow>
       P (Returned False, log env Abgebrochen_durch_Benutzer ((announce env m)\<lparr> stdin := rest \<rparr>))"
    and "\<And>a rest m6. stdin m = a # rest \<Longrightarrow> affirmative a \<Longrightarrow>
       space_gate env ((announce env m)\<lparr> stdin := rest \<rparr>) = (False, m6) \<Longrightarrow>
       P (Returned False, m6)"
    and "\<And>a rest m6. stdin m = a # rest \<Longrightarrow> affirmative a \<Longrightarrow>
       space_gate env ((announce env m)\<lparr> stdin := rest \<rparr>) = (True, m6) \<Longrightarrow>
       P (Returned True, final_report env (copy_loop env (os_walk (source_fs m)) (log env Beginne_mit_Kopieren m6)))"
  shows "P (execute env m)"
proof (cases "stdin m")
  case Nil
  with assms(1) show ?thesis
    by (simp add: execute_def Let_def logged_counters [OF announce_logged])
next
  case (Cons a rest)
  show ?thesis
  proof (cases "affirmative a")
    case False
    with Cons assms(2) show ?thesis
      by (simp add: execute_def Let_def logged_counters [OF announce_logged])
  next
    case True
    obtain b m6 where g: "space_gate env ((announce env m)\<lparr> stdin := rest \<rparr>) = (b, m6)"
      by (cases "space_gate env ((announce env m)\<lparr> stdin := rest \<rparr>)")
    have sf: "source_fs m6 = source_fs m"
      using space_gate_source [of env "(announce env m)\<lparr> stdin := rest \<rparr>"] g
      by (simp add: logged_counters [OF announce_logged])
    with g Cons True assms(3) [of a rest m6] assms(4) [of a rest m6] show ?thesis
      by (cases b) (simp_all add: execute_def Let_def logged_counters [OF announce_logged])
  qed
qed

lemma execute_mono: "target_md5s m \<subseteq> target_md5s (snd (execute env m))"
proof (rule execute_cases [where P = "\<lambda>x. target_md5s m \<subseteq> target_md5s (snd x)"])
  fix a rest m6
  assume run: "stdin m = a # rest" "affirmative a"
    "space_gate env ((announce env m)\<lparr> stdin := rest \<rparr>) = (True, m6)"
  from run(3) have "target_md5s m6 = target_md5s m"
    using space_gate_index [of env "(announce env m)\<lparr> stdin := rest \<rparr>"]
    by (simp add: logged_counters [OF announce_logged])
  then show "target_md5s m
      \<subseteq> target_md5s (snd (Returned True,
            final_report env (copy_loop env (os_walk (source_fs m)) (log env Beginne_mit_Kopieren m6))))"
    using copy_loop_mono [of "log env Beginne_mit_Kopieren m6" env "os_walk (source_fs m)"]
    by (simp add: logged_counters [OF final_report_logged])
next
  fix a rest m6
  assume "space_gate env ((announce env m)\<lparr> stdin := rest \<rparr>) = (False, m6)"
  then show "target_md5s m \<subseteq> target_md5s (snd (Returned False, m6))"
    using space_gate_index [of env "(announce env m)\<lparr> stdin := rest \<rparr>"]
    by (simp add: logged_counters [OF announce_logged])
qed (simp_all add: logged_counters [OF announce_logged])

text \<open>
  C10. Within a run the index \<^verbatim>\<open>target_md5s\<close> only grows: logging and hashing leave it
  as it is, one step of the target scan and one pass of the copy loop leave it as it is
  or insert one hash, and after any prefix of the scan or of the copy loop it is a
  subset of what it is after a longer prefix; \<^verbatim>\<open>scan_target\<close>, \<^verbatim>\<open>dry_run\<close> and
  \<^verbatim>\<open>execute\<close> end with a superset of the index they started with.
\<close>

theorem index_monotone:
  "target_md5s (log env e m) = target_md5s m \<and>
   target_md5s (snd (calculate_md5 env l m)) = target_md5s m \<and>
   (target_md5s (snd (scan_file env p (c, m))) = target_md5s m \<or>
    (\<exists>d. target_md5s (snd (scan_file env p (c, m))) = insert d (target_md5s m))) \<and>
   target_md5s (snd (fold (scan_file env) ps (c, m)))
     \<subseteq> target_md5s (snd (fold (scan_file env) (ps @ qs) (c, m))) \<and>
   target_md5s m \<subseteq> target_md5s (scan_target env m) \<and>
   target_md5s m \<subseteq> target_md5s (snd (dry_run env m)) \<and>
   (target_md5s (process_file env f m) = target_md5s m \<or>
    target_md5s (process_file env f m) = insert (md5 env (sbytes f)) (target_md5s m)) \<and>
   target_md5s (copy_loop env pre m) \<subseteq> target_md5s (copy_loop env (pre @ post) m) \<and>
   target_md5s m \<subseteq> target_md5s (snd (execute env m))"
proof -
  have "target_md5s (snd (scan_file env p (c, m))) = target_md5s m \<or>
    (\<exists>d. target_md5s (snd (scan_file env p (c, m))) = insert d (target_md5s m))"
    by (auto simp: scan_file_index split: option.splits)
  moreover have "target_md5s (snd (fold (scan_file env) ps (c, m)))
     \<subseteq> target_md5s (snd (fold (scan_file env) (ps @ qs) (c, m)))"
    using scan_fold_mono [of "fold (scan_file env) ps (c, m)" env qs] by simp
  moreover have "target_md5s (snd (calculate_md5 env l m)) = target_md5s m"
    by (simp add: calculate_md5_snd)
  moreover have "target_md5s (copy_loop env pre m) \<subseteq> target_md5s (copy_loop env (pre @ post) m)"
    by (simp add: copy_loop_append copy_loop_mono)
  ultimately show ?thesis
    using scan_target_mono [of m env] dry_run_mono [of m env]
      process_file_index [of env f m] execute_mono [of m env]
    by simp
qed

section \<open>The progress message after every hundredth copy\<close>

lemma process_file_progress:
  "copied (process_file env f m) = copied m + 1 \<and> copied (process_file env f m) mod 100 = 0 \<longrightarrow>
     errors (process_file env f m) = errors m + 1 \<and>
     last (out (process_file env f m)) = Fehler (spath f) AttributeError"
  by (rule process_file_cases [where P = "\<lambda>x. copied x = copied m + 1 \<and> copied x mod 100 = 0 \<longrightarrow>
        errors x = errors m + 1 \<and> last (out x) = Fehler (spath f) AttributeError"])
     (simp_all add: logged_counters)

lemma process_file_counts:
  "(copied (process_file env f m) = copied m \<and> errors m \<le> errors (process_file env f m)) \<or>
   (copied (process_file env f m) = copied m + 1 \<and> (copied m + 1) mod 100 \<noteq> 0 \<and>
      errors (process_file env f m) = errors m) \<or>
   (copied (process_file env f m) = copied m + 1 \<and> (copied m + 1) mod 100 = 0 \<and>
      errors (process_file env f m) = errors m + 1)"
  by (rule process_file_cases [where P = "\<lambda>x. (copied x = copied m \<and> errors m \<le> errors x) \<or>
        (copied x = copied m + 1 \<and> (copied m + 1) mod 100 \<noteq> 0 \<and> errors x = errors m) \<or>
        (copied x = copied m + 1 \<and> (copied m + 1) mod 100 = 0 \<and> errors x = errors m + 1)"])
     (simp_all add: logged_counters)

lemma div_100_step:
  fixes c :: int
  shows "(c + 1) div 100 = (if (c + 1) mod 100 = 0 then c div 100 + 1 else c div 100)"
proof -
  define q r where "q = c div 100" and "r = c mod 100"
  have c: "c = 100 * q + r" "0 \<le> r" "r < 100"
    by (simp_all add: q_def r_def)
  show ?thesis
  proof (cases "r = 99")
    case True
    with c have e: "c + 1 = 100 * (q + 1) + 0" by simp
    have "(c + 1) div 100 = q + 1" by (rule int_div_pos_eq [OF e]) simp_all
    moreover have "(c + 1) mod 100 = 0" by (rule int_mod_pos_eq [OF e]) simp_all
    ultimately show ?thesis by (simp add: q_def)
  next
    case False
    with c have e: "c + 1 = 100 * q + (r + 1)" and b: "0 \<le> r + 1" "r + 1 < 100" by simp_all
    have "(c + 1) div 100 = q" by (rule int_div_pos_eq [OF e b])
    moreover have "(c + 1) mod 100 = r + 1" by (rule int_mod_pos_eq [OF e b])
    ultimately show ?thesis using c(2) by (simp add: q_def)
  qed
qed

lemma debt_step:
  fixes c e c1 e1 :: int
  assumes "(c1 = c \<and> e \<le> e1) \<or> (c1 = c + 1 \<and> (c + 1) mod 100 \<noteq> 0 \<and> e1 = e) \<or>
           (c1 = c + 1 \<and> (c + 1) mod 100 = 0 \<and> e1 = e + 1)"
  shows "e - c div 100 \<le> e1 - c1 div 100"
  using assms by (auto simp: div_100_step)

lemma process_file_debt:
  "errors m - copied m div 100 \<le> errors (process_file env f m) - copied (process_file env f m) div 100"
  by (rule debt_step) (rule process_file_counts)

lemma copy_loop_debt:
  "errors m - copied m div 100 \<le> errors (copy_loop env fs m) - copied (copy_loop env fs m) div 100"
proof (induction fs arbitrary: m)
  case Nil
  show ?case by (simp add: copy_loop_def)
next
  case (Cons f fs)
  have "errors m - copied m div 100
      \<le> errors (process_file env f m) - copied (process_file env f m) div 100"
    by (rule process_file_debt)
  also have "\<dots> \<le> errors (copy_loop env fs (process_file env f m))
      - copied (copy_loop env fs (process_file env f m)) div 100"
    by (rule Cons.IH)
  finally show ?case by (simp add: copy_loop_def)
qed

lemma space_gate_counters [simp]:
  "copied (snd (space_gate env m)) = copied m" "errors (snd (space_gate env m)) = errors m"
  "duplicates (snd (space_gate env m)) = duplicates m"
  by (rule space_gate_cases [where P = "\<lambda>x. copied (snd x) = copied m"], simp_all)
     (rule space_gate_cases [where P = "\<lambda>x. errors (snd x) = errors m"], simp_all,
      rule space_gate_cases [where P = "\<lambda>x. duplicates (snd x) = duplicates m"], simp_all)

lemma execute_debt:
  "errors m - copied m div 100
     \<le> errors (snd (execute env m)) - copied (snd (execute env m)) div 100"
proof (rule execute_cases [where P = "\<lambda>x. errors m - copied m div 100
     \<le> errors (snd x) - copied (snd x) div 100"])
  fix a rest m6
  assume g: "space_gate env ((announce env m)\<lparr> stdin := rest \<rparr>) = (True, m6)"
  have "copied m6 = copied m" "errors m6 = errors m"
    using space_gate_counters [of env "(announce env m)\<lparr> stdin := rest \<rparr>"] g
    by (simp_all add: logged_counters [OF announce_logged])
  then show "errors m - copied m div 100
      \<le> errors (snd (Returned True,
            final_report env (copy_loop env (os_walk (source_fs m)) (log env Beginne_mit_Kopieren m6))))
        - copied (snd (Returned True,
            final_report env (copy_loop env (os_walk (source_fs m)) (log env Beginne_mit_Kopieren m6)))) div 100"
    using copy_loop_debt [of "log env Beginne_mit_Kopieren m6" env "os_walk (source_fs m)"]
    by (simp add: logged_counters [OF final_report_logged])
next
  fix a rest m6
  assume g: "space_gate env ((announce env m)\<lparr> stdin := rest \<rparr>) = (False, m6)"
  have "copied m6 = copied m" "errors m6 = errors m"
    using space_gate_counters [of env "(announce env m)\<lparr> stdin := rest \<rparr>"] g
    by (simp_all add: logged_counters [OF announce_logged])
  then show "errors m - copied m div 100
      \<le> errors (snd (Returned False, m6)) - copied (snd (Returned False, m6)) div 100"
    by simp
qed (simp_all add: logged_counters [OF announce_logged])

lemma main_execute:
  "snd (main env Execute src t answers) = snd (execute env (init src t answers))"
  by (simp add: main_def Let_def split: prod.splits result.splits)

text \<open>
  C8. A pass of the copy loop that copies a file and brings \<^verbatim>\<open>copied\<close> to a multiple of
  100 ends in the handler of the loop: the error counter goes up by one and the line
  logged last is the \<^verbatim>\<open>AttributeError\<close> of the progress message. So a run of
  \<^verbatim>\<open>main\<close> in execute mode ends with at least one error for every full hundred of
  copies (at least one from 100 copies on), whether or not any hash or copy failed.
\<close>

theorem progress_message_counts_as_error:
  "(copied (process_file env f m) = copied m + 1 \<and> copied (process_file env f m) mod 100 = 0 \<longrightarrow>
      errors (process_file env f m) = errors m + 1 \<and>
      last (out (process_file env f m)) = Fehler (spath f) AttributeError) \<and>
   copied (snd (main env Execute src t answers)) div 100
     \<le> errors (snd (main env Execute src t answers))"
proof -
  have d: "copied (snd (main env Execute src t answers)) div 100
     \<le> errors (snd (main env Execute src t answers))"
    using execute_debt [of "init src t answers" env]
    by (simp add: main_execute) (simp add: init_def)
  with process_file_progress [of env f m] show ?thesis by blast
qed

lemmas step_defs = process_file_def try_file_def copy_and_index_def copy2_def mkdir_parents_def
  calculate_md5_def log_def print_def log_file_def append_file_def path_exists_def is_file_def
  path_parent_def path_name_def demo_env_def init_def Let_def

text \<open>
  The hundredth copy: on a merger that has copied 99 files, the pass copies, counts 100
  and ends in the handler with one error.
\<close>

theorem progress_message_counts_as_error_witness:
  "copied (process_file demo_env \<lparr> spath = [''a''], sbytes = ''x'', sreadable = True \<rparr>
     ((init [] [([], Dir)] [])\<lparr> copied := 99 \<rparr>)) = 100 \<and>
   errors (process_file demo_env \<lparr> spath = [''a''], sbytes = ''x'', sreadable = True \<rparr>
     ((init [] [([], Dir)] [])\<lparr> copied := 99 \<rparr>)) = 1 \<and>
   last (out (process_file demo_env \<lparr> spath = [''a''], sbytes = ''x'', sreadable = True \<rparr>
     ((init [] [([], Dir)] [])\<lparr> copied := 99 \<rparr>))) = Fehler [''a''] AttributeError"
proof -
  let ?f = "\<lparr> spath = [''a''], sbytes = ''x'', sreadable = True \<rparr>"
  let ?m = "(init [] [([], Dir)] [] :: string merger)\<lparr> copied := 99 \<rparr>"
  have c: "copied (process_file demo_env ?f ?m) = 100"
    by (simp add: step_defs)
  have e: "errors ?m = 0" "copied ?m = 99" "spath ?f = [''a'']"
    by (simp_all add: init_def)
  from progress_message_counts_as_error [of demo_env ?f ?m "[]" "[]" "[]"] c e
  show ?thesis by simp
qed

section \<open>What the dry run keeps\<close>

lemma dry_frame_refl [simp]: "dry_frame env m m"
  by (simp add: dry_frame_def)

lemma dry_frame_trans: "dry_frame env m m1 \<Longrightarrow> dry_frame env m1 m2 \<Longrightarrow> dry_frame env m m2"
  by (auto simp: dry_frame_def intro: appended_trans prefix_order.trans)

lemma logged_dry_frame: "logged env m m1 \<Longrightarrow> dry_frame env m m1"
  by (simp add: logged_def dry_frame_def)

lemma dry_frame_log [simp]: "dry_frame env m m1 \<Longrightarrow> dry_frame env m (log env e m1)"
  by (erule dry_frame_trans) (simp add: logged_dry_frame)

lemma dry_frame_update [simp]:
  "dry_frame env m (m1\<lparr> target_md5s := a \<rparr>) = dry_frame env m m1"
  "dry_frame env m (m1\<lparr> source_files := b \<rparr>) = dry_frame env m m1"
  "dry_frame env m (m1\<lparr> target_files := b \<rparr>) = dry_frame env m m1"
  "dry_frame env m (m1\<lparr> duplicates := b \<rparr>) = dry_frame env m m1"
  "dry_frame env m (m1\<lparr> total_size := b \<rparr>) = dry_frame env m m1"
  by (simp_all add: dry_frame_def)

lemma calculate_md5_frame [simp]: "dry_frame env m (snd (calculate_md5 env l m))"
  by (rule logged_dry_frame) simp

lemma scan_file_frame: "dry_frame env (snd cm) (snd (scan_file env p cm))"
  by (cases cm) (simp add: scan_file_def Let_def split_def split: option.splits)

lemma scan_fold_frame: "dry_frame env (snd cm) (snd (fold (scan_file env) ps cm))"
proof (induction ps arbitrary: cm)
  case Nil
  show ?case by simp
next
  case (Cons p ps)
  from scan_file_frame [of env cm p] Cons.IH [of "scan_file env p cm"]
  show ?case by (simp add: dry_frame_trans)
qed

lemma scan_target_frame: "dry_frame env m (scan_target env m)"
proof -
  let ?m1 = "log env Scanne_Ziel m"
  let ?r = "fold (scan_file env) (walk_files (target_fs ?m1)) (0, ?m1)"
  have a: "dry_frame env m ?m1" by (rule logged_dry_frame) simp
  have b: "dry_frame env ?m1 (snd ?r)" using scan_fold_frame [of env "(0, ?m1)"] by simp
  have c: "dry_frame env (snd ?r) (scan_target env m)"
    by (simp add: scan_target_def Let_def split_def)
  from a b c show ?thesis by (blast intro: dry_frame_trans)
qed

lemma dry_file_frame: "dry_frame env (snd (snd x)) (snd (snd (dry_file env f x)))"
  by (cases x) (simp add: dry_file_def Let_def split_def split: option.splits)

lemma dry_fold_frame: "dry_frame env (snd (snd x)) (snd (snd (fold (dry_file env) fs x)))"
proof (induction fs arbitrary: x)
  case Nil
  show ?case by simp
next
  case (Cons f fs)
  from dry_file_frame [of env x f] Cons.IH [of "dry_file env f x"]
  show ?case by (simp add: dry_frame_trans)
qed

lemma scan_target_source [simp]: "source_fs (scan_target env m) = source_fs m"
  using scan_target_frame [of env m] by (simp add: dry_frame_def)

lemma dry_run_eq:
  "dry_run env m =
     (True, dry_report env
        (fst (fold (dry_file env) (os_walk (source_fs m)) ([], [],
           log env Analysiere_Quelle (scan_target env (log env Rule (log env Trockenlauf m))))))
        (fst (snd (fold (dry_file env) (os_walk (source_fs m)) ([], [],
           log env Analysiere_Quelle (scan_target env (log env Rule (log env Trockenlauf m)))))))
        (snd (snd (fold (dry_file env) (os_walk (source_fs m)) ([], [],
           log env Analysiere_Quelle (scan_target env (log env Rule (log env Trockenlauf m))))))))"
  by (simp add: dry_run_def Let_def split_def)

lemma dry_run_tail_frame:
  "dry_frame env (log env Trockenlauf m) (snd (dry_run env m))"
proof -
  let ?m0 = "log env Trockenlauf m"
  let ?m1 = "log env Rule ?m0"
  let ?m2 = "scan_target env ?m1"
  let ?m3 = "log env Analysiere_Quelle ?m2"
  let ?r = "fold (dry_file env) (os_walk (source_fs m)) ([], [], ?m3)"
  have "dry_frame env ?m0 ?m1" by (rule logged_dry_frame) simp
  moreover have "dry_frame env ?m1 ?m2" by (rule scan_target_frame)
  moreover have "dry_frame env ?m2 ?m3" by (rule logged_dry_frame) simp
  moreover have "dry_frame env ?m3 (snd (snd ?r))"
    using dry_fold_frame [of env "([], [], ?m3)" "os_walk (source_fs m)"] by simp
  moreover have "dry_frame env (snd (snd ?r)) (snd (dry_run env m))"
    by (simp add: dry_run_eq logged_dry_frame)
  ultimately show ?thesis by (blast intro: dry_frame_trans)
qed

lemma dry_run_frame: "dry_frame env m (snd (dry_run env m))"
proof -
  have "dry_frame env m (log env Trockenlauf m)" by (rule logged_dry_frame) simp
  then show ?thesis using dry_run_tail_frame [of env m] by (rule dry_frame_trans)
qed

lemma dry_run_creates_log:
  assumes "map_of (target_fs m) [] = Some Dir"
  shows "path_exists (target_fs (snd (dry_run env m))) (log_file env)"
proof -
  from assms have "path_exists (target_fs (log env Trockenlauf m)) (log_file env)"
    by (rule log_creates)
  moreover have "appended (log_file env) (target_fs (log env Trockenlauf m))
      (target_fs (snd (dry_run env m)))"
    using dry_run_tail_frame [of env m] by (simp add: dry_frame_def)
  ultimately show ?thesis by (blast intro: appended_exists)
qed

lemma main_dry_run:
  "target_fs (snd (main env Dry_run src t answers)) = target_fs (snd (dry_run env (init src t answers)))"
  "source_fs (snd (main env Dry_run src t answers)) = source_fs (snd (dry_run env (init src t answers)))"
  "errors (snd (main env Dry_run src t answers)) = errors (snd (dry_run env (init src t answers)))"
  "source_files (snd (main env Dry_run src t answers)) = source_files (snd (dry_run env (init src t answers)))"
  "out (snd (main env Dry_run src t answers)) =
     out (snd (dry_run env (init src t answers))) @ [Rule, Print_Zum_Kopieren, Print_Kommando, Rule]"
  "fst (main env Dry_run src t answers) = 0"
  by (simp_all add: main_def Let_def split_def dry_run_eq)

lemma init_fields [simp]:
  "target_md5s (init s t a) = {}" "source_files (init s t a) = 0" "target_files (init s t a) = 0"
  "duplicates (init s t a) = 0" "copied (init s t a) = 0" "errors (init s t a) = 0"
  "total_size (init s t a) = 0" "source_fs (init s t a) = s" "target_fs (init s t a) = t"
  "out (init s t a) = []" "stdin (init s t a) = a"
  by (simp_all add: init_def)

section \<open>Runs of \<^verbatim>\<open>main\<close> in execute mode\<close>

lemma os_walk_Nil [simp]: "os_walk [] = []"
  by (simp add: os_walk_def map_filter_simps)

lemma os_walk_one:
  "os_walk [([], SDir True), ([n], SFile c r)] = [\<lparr> spath = [n], sbytes = c, sreadable = r \<rparr>]"
  by (simp add: os_walk_def reached_def path_parent_def map_filter_simps)

lemma os_walk_two:
  "n1 \<noteq> n2 \<Longrightarrow>
   os_walk [([], SDir True), ([n1], SFile c1 r1), ([n2], SFile c2 r2)] =
     [\<lparr> spath = [n1], sbytes = c1, sreadable = r1 \<rparr>, \<lparr> spath = [n2], sbytes = c2, sreadable = r2 \<rparr>]"
  by (simp add: os_walk_def reached_def path_parent_def map_filter_simps)

lemma execute_confirmed:
  assumes "stdin m = a # rest" and "affirmative a" and "disk_free env = Some free"
    and "\<not> int free < total_size m"
  shows "execute env m =
     (Returned True, final_report env (copy_loop env (os_walk (source_fs m))
        (log env Beginne_mit_Kopieren ((announce env m)\<lparr> stdin := rest \<rparr>))))"
  using assms
  by (simp add: execute_def Let_def space_gate_def logged_counters [OF announce_logged])

lemma main_execute_status:
  "fst (main env Execute src t answers) =
     (if fst (execute env (init src t answers)) = Returned True then 0 else 1)"
  by (cases "execute env (init src t answers)"; cases "fst (execute env (init src t answers))")
     (auto simp: main_def Let_def)

lemma final_report_fields [simp]:
  "copied (final_report env m) = copied m" "duplicates (final_report env m) = duplicates m"
  "errors (final_report env m) = errors m" "total_size (final_report env m) = total_size m"
  "source_fs (final_report env m) = source_fs m" "target_md5s (final_report env m) = target_md5s m"
  by (simp_all add: logged_counters [OF final_report_logged])

lemma final_report_lookup:
  "p \<noteq> log_file env \<Longrightarrow> map_of (target_fs (final_report env m)) p = map_of (target_fs m) p"
  by (rule appended_lookup [OF logged_tree [OF final_report_logged]])

lemma main_confirmed:
  assumes "affirmative a" and "disk_free env = Some free"
  shows "main env Execute src t (a # rest) =
     (0, final_report env (copy_loop env (os_walk src)
        (log env Beginne_mit_Kopieren ((announce env (init src t (a # rest)))\<lparr> stdin := rest \<rparr>))))"
  using execute_confirmed [of "init src t (a # rest)" a rest env free] assms
  by (simp add: main_def)

lemma main_status:
  "affirmative a \<Longrightarrow> disk_free env = Some free \<Longrightarrow> fst (main env Execute src t (a # rest)) = 0"
  by (simp add: main_confirmed)

lemma appended_dir: "appended lp t t1 \<Longrightarrow> map_of t p = Some Dir \<Longrightarrow> map_of t1 p = Some Dir"
  by (cases "p = lp") (auto simp: appended_def)

lemma log_lookup [simp]:
  "p \<noteq> log_file env \<Longrightarrow> map_of (target_fs (log env e m)) p = map_of (target_fs m) p"
  using log_appended [of env m e] by (rule appended_lookup)

lemma appended_log [simp]:
  "appended (log_file env) t (target_fs m1) \<Longrightarrow> appended (log_file env) t (target_fs (log env e m1))"
  by (erule appended_trans) simp

lemma space_gate_tree:
  "appended (log_file env) (target_fs m) (target_fs (snd (space_gate env m)))"
  by (rule space_gate_cases [where P = "\<lambda>x. appended (log_file env) (target_fs m) (target_fs (snd x))"])
     simp_all

lemma space_gate_total [simp]: "total_size (snd (space_gate env m)) = total_size m"
  by (rule space_gate_cases [where P = "\<lambda>x. total_size (snd x) = total_size m"]) simp_all

text \<open>The state in which the copy loop starts, and the run from there.\<close>

lemma loop_start_fields [simp]:
  "target_md5s (loop_start env m) = target_md5s m" "copied (loop_start env m) = copied m"
  "errors (loop_start env m) = errors m" "duplicates (loop_start env m) = duplicates m"
  "total_size (loop_start env m) = total_size m" "source_fs (loop_start env m) = source_fs m"
  by (simp_all add: loop_start_def logged_counters [OF announce_logged])

lemma loop_start_tail:
  "appended (log_file env) (target_fs (log env Kopiervorgang m)) (target_fs (loop_start env m))"
proof -
  let ?m5 = "(announce env m)\<lparr> stdin := tl (stdin m) \<rparr>"
  have "appended (log_file env) (target_fs (log env Kopiervorgang m)) (target_fs ?m5)"
    by (simp add: announce_def Let_def)
  from appended_trans [OF this space_gate_tree [of env ?m5]]
  show ?thesis by (simp add: loop_start_def)
qed

lemma loop_start_appended:
  "appended (log_file env) (target_fs m) (target_fs (loop_start env m))"
  by (rule appended_trans [OF log_appended loop_start_tail])

lemma loop_start_lookup:
  "p \<noteq> log_file env \<Longrightarrow> map_of (target_fs (loop_start env m)) p = map_of (target_fs m) p"
  by (rule appended_lookup [OF loop_start_appended])

lemma loop_start_log:
  "map_of (target_fs m) [] = Some Dir \<Longrightarrow> path_exists (target_fs (loop_start env m)) (log_file env)"
  by (rule appended_exists [OF loop_start_tail]) (rule log_creates)

lemma execute_run:
  assumes "fst (execute env m) = Returned True"
  shows "snd (execute env m) =
     final_report env (copy_loop env (os_walk (source_fs m)) (loop_start env m))"
proof -
  let ?P = "\<lambda>x. fst x = Returned True \<longrightarrow>
     snd x = final_report env (copy_loop env (os_walk (source_fs m)) (loop_start env m))"
  have "?P (execute env m)"
  proof (rule execute_cases [where P = ?P])
    fix a rest m6
    assume "stdin m = a # rest"
      and "space_gate env ((announce env m)\<lparr> stdin := rest \<rparr>) = (True, m6)"
    then show "?P (Returned True, final_report env
        (copy_loop env (os_walk (source_fs m)) (log env Beginne_mit_Kopieren m6)))"
      by (simp add: loop_start_def)
  qed simp_all
  with assms show ?thesis by simp
qed

lemma main_run:
  assumes "fst (main env Execute src t answers) = 0"
  shows "snd (main env Execute src t answers) =
     final_report env (copy_loop env (os_walk src) (loop_start env (init src t answers)))"
proof -
  from assms have "fst (execute env (init src t answers)) = Returned True"
    by (simp add: main_execute_status split: if_splits)
  from execute_run [OF this] show ?thesis by (simp add: main_execute)
qed

lemmas run_defs = process_file_def try_file_def copy_and_index_def copy2_def mkdir_parents_def
  calculate_md5_def log_def print_def log_file_def append_file_def path_exists_def is_file_def
  path_parent_def path_name_def demo_env_def init_def announce_def copy_loop_def Let_def

section \<open>The dry run writes the log file only\<close>

text \<open>
  C7, as the spec states it, fails: the dry run logs, and the log file lies under the
  target root. On a target that holds nothing but its root directory, a dry run of an
  empty source leaves a new file \<^verbatim>\<open>merge.log\<close> behind.
\<close>

theorem dry_run_writes_counterexample:
  "map_of [([], Dir)] [''merge.log''] = None \<and>
   map_of (target_fs (snd (main demo_env Dry_run [([], SDir True)] [([], Dir)] []))) [''merge.log'']
     \<noteq> None"
proof -
  have "path_exists (target_fs (snd (dry_run demo_env (init [([], SDir True)] [([], Dir)] []))))
      (log_file demo_env)"
    by (rule dry_run_creates_log) simp
  then show ?thesis
    by (simp add: main_dry_run path_exists_def log_file_def demo_env_def)
qed

text \<open>
  C7, amended. Of the two trees, the dry run changes nothing but its own log file
  \<^verbatim>\<open>merge_<timestamp>.log\<close>, directly under the target root, which it creates or
  extends at its end: the source tree is after the run what it was before, and every
  path of the target other than the log file holds what it held. (The two trees are
  disjoint here; when the target root lies under the source root, the log file lies
  under the source root as well.)
\<close>

theorem dry_run_writes_log_only:
  "source_fs (snd (dry_run env m)) = source_fs m \<and>
   appended (log_file env) (target_fs m) (target_fs (snd (dry_run env m))) \<and>
   source_fs (snd (main env Dry_run src t answers)) = src \<and>
   appended (log_file env) t (target_fs (snd (main env Dry_run src t answers)))"
  using dry_run_frame [of env m] dry_run_frame [of env "init src t answers"]
  by (simp add: dry_frame_def main_dry_run)

text \<open>
  A dry run on a target that holds \<^verbatim>\<open>a.txt\<close>: the source is as it was, the file of
  the target is as it was, and the new file of the source has not appeared.
\<close>

theorem dry_run_writes_log_only_witness:
  "source_fs (snd (main demo_env Dry_run
       [([], SDir True), ([''b.txt''], SFile ''Y'' True)]
       [([], Dir), ([''a.txt''], File ''X'' True)] []))
     = [([], SDir True), ([''b.txt''], SFile ''Y'' True)] \<and>
   map_of (target_fs (snd (main demo_env Dry_run
       [([], SDir True), ([''b.txt''], SFile ''Y'' True)]
       [([], Dir), ([''a.txt''], File ''X'' True)] []))) [''a.txt''] = Some (File ''X'' True) \<and>
   map_of (target_fs (snd (main demo_env Dry_run
       [([], SDir True), ([''b.txt''], SFile ''Y'' True)]
       [([], Dir), ([''a.txt''], File ''X'' True)] []))) [''b.txt''] = None"
proof -
  let ?t = "[([], Dir), ([''a.txt''], File ''X'' True)]"
  let ?s = "[([], SDir True), ([''b.txt''], SFile ''Y'' True)]"
  have a: "source_fs (snd (main demo_env Dry_run ?s ?t [])) = ?s"
    and b: "appended (log_file demo_env) ?t (target_fs (snd (main demo_env Dry_run ?s ?t [])))"
    using dry_run_writes_log_only [of demo_env "init ?s ?t []" ?s ?t "[]"] by simp_all
  have "[''a.txt''] \<noteq> log_file demo_env" "[''b.txt''] \<noteq> log_file demo_env"
    by (simp_all add: log_file_def demo_env_def)
  with a show ?thesis by (simp add: appended_lookup [OF b])
qed

section \<open>A file that cannot be hashed\<close>

lemma process_file_unreadable:
  "\<not> sreadable f \<Longrightarrow>
   process_file env f m = (log env (MD5_Fehler (Src f)) m)\<lparr> errors := errors m + 1 \<rparr>"
  by (simp add: process_file_def try_file_def calculate_md5_def)

lemma dry_run_errors [simp]: "errors (snd (dry_run env m)) = errors m"
  using dry_run_frame [of env m] by (simp add: dry_frame_def)

text \<open>
  C6. The spec has both passes add one to the error counter for a source file that
  cannot be hashed. \<^verbatim>\<open>execute\<close> does (line 232). \<^verbatim>\<open>dry_run\<close> logs the failure of
  \<^verbatim>\<open>calculate_md5\<close> and goes on at line 115 without touching the counter: no dry run
  of \<^verbatim>\<open>main\<close> ends with an error counted. With one source file \<^verbatim>\<open>a.txt\<close> that cannot be
  opened for reading, \<^verbatim>\<open>calculate_md5\<close> returns \<^verbatim>\<open>None\<close>, the dry run ends with status 0
  and \<^verbatim>\<open>errors = 0\<close>, and the execute run over the same trees counts one error and
  copies nothing.
\<close>

theorem dry_run_counts_no_error:
  "errors (snd (main env Dry_run src t answers)) = 0 \<and>
   os_walk [([], SDir True), ([''a.txt''], SFile ''Y'' False)]
     = [\<lparr> spath = [''a.txt''], sbytes = ''Y'', sreadable = False \<rparr>] \<and>
   fst (calculate_md5 demo_env (Src \<lparr> spath = [''a.txt''], sbytes = ''Y'', sreadable = False \<rparr>)
          (init [([], SDir True), ([''a.txt''], SFile ''Y'' False)] [([], Dir)] [])) = None \<and>
   fst (main demo_env Dry_run [([], SDir True), ([''a.txt''], SFile ''Y'' False)] [([], Dir)] []) = 0 \<and>
   errors (snd (main demo_env Dry_run [([], SDir True), ([''a.txt''], SFile ''Y'' False)]
          [([], Dir)] [])) = 0 \<and>
   fst (main demo_env Execute [([], SDir True), ([''a.txt''], SFile ''Y'' False)] [([], Dir)] [''j'']) = 0 \<and>
   errors (snd (main demo_env Execute [([], SDir True), ([''a.txt''], SFile ''Y'' False)]
          [([], Dir)] [''j''])) = 1 \<and>
   copied (snd (main demo_env Execute [([], SDir True), ([''a.txt''], SFile ''Y'' False)]
          [([], Dir)] [''j''])) = 0"
proof -
  let ?s = "[([], SDir True), ([''a.txt''], SFile ''Y'' False)]"
  let ?f = "\<lparr> spath = [''a.txt''], sbytes = ''Y'', sreadable = False \<rparr>"
  have d: "errors (snd (main env Dry_run src t answers)) = 0" for env :: "'a env" and src t answers
    by (simp add: main_dry_run)
  have w: "os_walk ?s = [?f]" by (rule os_walk_one)
  have e: "main demo_env Execute ?s [([], Dir)] [''j''] =
      (0, final_report demo_env (copy_loop demo_env (os_walk ?s)
        (log demo_env Beginne_mit_Kopieren
           ((announce demo_env (init ?s [([], Dir)] [''j'']))\<lparr> stdin := [] \<rparr>))))"
    by (rule main_confirmed [where free = 100]) (simp_all add: affirmative_def demo_env_def)
  have u: "\<not> sreadable ?f" by simp
  show ?thesis
    by (simp add: d w e main_dry_run copy_loop_def process_file_unreadable [OF u]
        logged_counters [OF announce_logged])
qed

section \<open>The space check\<close>

lemma dry_file_total:
  "total_size (snd (snd (dry_file env f x))) - sum_list (map snd (fst (dry_file env f x))) =
   total_size (snd (snd x)) - sum_list (map snd (fst x))"
  by (cases x) (simp add: dry_file_def calculate_md5_def Let_def split_def split: option.splits)

lemma dry_fold_total:
  "total_size (snd (snd (fold (dry_file env) fs x))) - sum_list (map snd (fst (fold (dry_file env) fs x))) =
   total_size (snd (snd x)) - sum_list (map snd (fst x))"
  by (induction fs arbitrary: x) (simp_all add: dry_file_total)

lemma logged_out: "logged env m m1 \<Longrightarrow> set (out m) \<subseteq> set (out m1)"
  by (auto simp: logged_def dest: set_mono_prefix)

lemma dry_space_check_short:
  assumes "disk_free env = Some free" and "tc \<noteq> []" and "int free < total_size m"
  shows "out (dry_space_check env tc m) =
     out m @ [Platzbedarf (total_size m), Freier_Platz free, Warnung_Nicht_genug_Platz,
              Fehlend (total_size m - int free)]"
  using assms by (simp add: dry_space_check_def Let_def)

lemma dry_report_total [simp]: "total_size (dry_report env tc dups m) = total_size m"
  by (simp add: logged_counters [OF dry_report_logged])

lemma dry_report_short:
  assumes "disk_free env = Some free" and "tc \<noteq> []" and "int free < total_size m"
  shows "Warnung_Nicht_genug_Platz \<in> set (out (dry_report env tc dups m)) \<and>
         Fehlend (total_size m - int free) \<in> set (out (dry_report env tc dups m))"
proof -
  let ?m10 = "log env (Zu_kopieren (int (length tc)))
     (log env (Bereits_vorhanden (duplicates m))
       (log env (Zieldateien (target_files m))
         (log env (Quelldateien (source_files m))
           (log env Analysezeit
             (log env Rule (log env Ergebnis_Trockenlauf (log env Rule m)))))))"
  let ?m11 = "dry_space_check env tc ?m10"
  have r: "dry_report env tc dups m =
      show_examples env Beispiele_neu tc (show_examples env Beispiele_vorhanden dups ?m11)"
    by (simp add: dry_report_def Let_def)
  have t: "total_size ?m10 = total_size m" by simp
  from assms t have "out ?m11 = out ?m10 @ [Platzbedarf (total_size m), Freier_Platz free,
      Warnung_Nicht_genug_Platz, Fehlend (total_size m - int free)]"
    using dry_space_check_short [of env free tc ?m10] by simp
  then have "Warnung_Nicht_genug_Platz \<in> set (out ?m11)"
    "Fehlend (total_size m - int free) \<in> set (out ?m11)" by simp_all
  moreover have "logged env ?m11 (dry_report env tc dups m)"
    unfolding r by (rule logged_trans [OF show_examples_logged show_examples_logged])
  ultimately show ?thesis using logged_out by blast
qed

lemma scan_file_total [simp]: "total_size (snd (scan_file env p cm)) = total_size (snd cm)"
  by (cases cm) (simp add: scan_file_def calculate_md5_def Let_def split_def split: option.splits)

lemma scan_fold_total [simp]:
  "total_size (snd (fold (scan_file env) ps cm)) = total_size (snd cm)"
  by (induction ps arbitrary: cm) simp_all

lemma scan_target_total [simp]: "total_size (scan_target env m) = total_size m"
  by (simp add: scan_target_def Let_def split_def)

text \<open>
  The dry run adds up in \<^verbatim>\<open>total_size\<close> the sizes of the files of its list
  \<^verbatim>\<open>to_copy\<close>; when the sum exceeds the free space it logs the warning and the
  shortfall, and returns \<^verbatim>\<open>True\<close> all the same.
\<close>

lemma dry_run_short:
  assumes "disk_free env = Some free"
    and "int free < total_size (snd (dry_run env (init src t answers)))"
  shows "fst (dry_run env (init src t answers)) \<and>
     Warnung_Nicht_genug_Platz \<in> set (out (snd (dry_run env (init src t answers)))) \<and>
     Fehlend (total_size (snd (dry_run env (init src t answers))) - int free)
       \<in> set (out (snd (dry_run env (init src t answers))))"
proof -
  let ?m3 = "log env Analysiere_Quelle
      (scan_target env (log env Rule (log env Trockenlauf (init src t answers))))"
  let ?r = "fold (dry_file env) (os_walk src) ([], [], ?m3)"
  have e: "dry_run env (init src t answers) =
      (True, dry_report env (fst ?r) (fst (snd ?r)) (snd (snd ?r)))"
    using dry_run_eq [of env "init src t answers"] by simp
  have "total_size (snd (snd ?r)) - sum_list (map snd (fst ?r)) = 0"
    using dry_fold_total [of env "os_walk src" "([], [], ?m3)"] by simp
  then have ts: "total_size (snd (snd ?r)) = sum_list (map snd (fst ?r))" by simp
  from assms(2) have lt: "int free < total_size (snd (snd ?r))" by (simp add: e)
  with ts have "fst ?r \<noteq> []" by auto
  from dry_report_short [OF assms(1) this lt] show ?thesis by (simp add: e)
qed

text \<open>
  In \<^verbatim>\<open>execute\<close> nothing writes \<^verbatim>\<open>total_size\<close>, and with \<^verbatim>\<open>total_size\<close> at 0 the
  space check finds the free space sufficient or unknown.
\<close>

lemma unwarned_log [simp]:
  "e \<noteq> Warnung_Nicht_genug_Platz \<Longrightarrow> unwarned (log env e m) = unwarned m"
  "e \<noteq> Warnung_Nicht_genug_Platz \<Longrightarrow> unwarned (print e m) = unwarned m"
  by (auto simp: unwarned_def)

lemma unwarned_update [simp]:
  "unwarned (m\<lparr> errors := a \<rparr>) = unwarned m"
  "unwarned (m\<lparr> duplicates := a \<rparr>) = unwarned m"
  "unwarned (m\<lparr> copied := a \<rparr>) = unwarned m"
  "unwarned (m\<lparr> target_fs := b \<rparr>) = unwarned m"
  "unwarned (m\<lparr> target_md5s := c \<rparr>) = unwarned m"
  "unwarned (m\<lparr> stdin := d \<rparr>) = unwarned m"
  by (simp_all add: unwarned_def)

lemma calculate_md5_unwarned [simp]: "unwarned (snd (calculate_md5 env l m)) = unwarned m"
  by (simp add: calculate_md5_snd)

lemma process_file_unwarned [simp]: "unwarned (process_file env f m) = unwarned m"
  by (simp add: process_file_def try_file_def copy_and_index_def Let_def split_def
      split: option.splits sum.splits)

lemma process_file_total [simp]: "total_size (process_file env f m) = total_size m"
  by (rule process_file_cases [where P = "\<lambda>x. total_size x = total_size m"])
     (simp_all add: logged_counters)

lemma copy_loop_unwarned [simp]: "unwarned (copy_loop env fs m) = unwarned m"
  by (induction fs arbitrary: m) (simp_all add: copy_loop_def)

lemma copy_loop_total [simp]: "total_size (copy_loop env fs m) = total_size m"
  by (induction fs arbitrary: m) (simp_all add: copy_loop_def)

lemma final_report_unwarned [simp]: "unwarned (final_report env m) = unwarned m"
  by (simp add: final_report_def Let_def)

lemma announce_unwarned [simp]: "unwarned (announce env m) = unwarned m"
  by (simp add: announce_def Let_def)

lemma space_gate_unwarned:
  "total_size m \<le> 0 \<Longrightarrow> unwarned (snd (space_gate env m)) = unwarned m"
  by (rule space_gate_cases [where P = "\<lambda>x. unwarned (snd x) = unwarned m"]) simp_all

lemma execute_total [simp]: "total_size (snd (execute env m)) = total_size m"
proof (rule execute_cases [where P = "\<lambda>x. total_size (snd x) = total_size m"])
  fix a rest m6
  assume "space_gate env ((announce env m)\<lparr> stdin := rest \<rparr>) = (True, m6)"
  then have "total_size m6 = total_size m"
    using space_gate_total [of env "(announce env m)\<lparr> stdin := rest \<rparr>"]
    by (simp add: logged_counters [OF announce_logged])
  then show "total_size (snd (Returned True, final_report env
      (copy_loop env (os_walk (source_fs m)) (log env Beginne_mit_Kopieren m6)))) = total_size m"
    by simp
next
  fix a rest m6
  assume "space_gate env ((announce env m)\<lparr> stdin := rest \<rparr>) = (False, m6)"
  then show "total_size (snd (Returned False, m6)) = total_size m"
    using space_gate_total [of env "(announce env m)\<lparr> stdin := rest \<rparr>"]
    by (simp add: logged_counters [OF announce_logged])
qed (simp_all add: logged_counters [OF announce_logged])

lemma execute_unwarned:
  assumes "total_size m \<le> 0"
  shows "unwarned (snd (execute env m)) = unwarned m"
proof (rule execute_cases [where P = "\<lambda>x. unwarned (snd x) = unwarned m"])
  fix a rest m6
  assume "space_gate env ((announce env m)\<lparr> stdin := rest \<rparr>) = (True, m6)"
  then have "unwarned m6 = unwarned m"
    using space_gate_unwarned [of "(announce env m)\<lparr> stdin := rest \<rparr>" env] assms
    by (simp add: logged_counters [OF announce_logged])
  then show "unwarned (snd (Returned True, final_report env
      (copy_loop env (os_walk (source_fs m)) (log env Beginne_mit_Kopieren m6)))) = unwarned m"
    by simp
next
  fix a rest m6
  assume "space_gate env ((announce env m)\<lparr> stdin := rest \<rparr>) = (False, m6)"
  then show "unwarned (snd (Returned False, m6)) = unwarned m"
    using space_gate_unwarned [of "(announce env m)\<lparr> stdin := rest \<rparr>" env] assms
    by (simp add: logged_counters [OF announce_logged])
qed simp_all

text \<open>
  C9. The spec has the run report the shortfall whenever the bytes to copy exceed the
  free space. The dry run does (lines 159 to 162). The space check of \<^verbatim>\<open>execute\<close>
  compares the free space with \<^verbatim>\<open>stats['total_size']\<close>, which only the dry run adds
  up (line 129); \<^verbatim>\<open>main\<close> runs \<^verbatim>\<open>execute\<close> on a fresh merger, so \<^verbatim>\<open>total_size\<close> is
  0 at the check and at the end, and no run of \<^verbatim>\<open>main\<close> in execute mode prints the
  warning. With 5 bytes free and one new file of 10 bytes, the dry run reports the
  shortfall of 5 bytes, and the execute run ends with status 0 and the file copied.
\<close>

theorem execute_reports_no_shortfall:
  "total_size (snd (main env Execute src t answers)) = 0 \<and>
   Warnung_Nicht_genug_Platz \<notin> set (out (snd (main env Execute src t answers))) \<and>
   Fehlend 5 \<in> set (out (snd (main (demo_env\<lparr> disk_free := Some 5 \<rparr>) Dry_run
       [([], SDir True), ([''b.bin''], SFile ''0123456789'' True)] [([], Dir)] []))) \<and>
   fst (main (demo_env\<lparr> disk_free := Some 5 \<rparr>) Execute
       [([], SDir True), ([''b.bin''], SFile ''0123456789'' True)] [([], Dir)] [''j'']) = 0 \<and>
   copied (snd (main (demo_env\<lparr> disk_free := Some 5 \<rparr>) Execute
       [([], SDir True), ([''b.bin''], SFile ''0123456789'' True)] [([], Dir)] [''j''])) = 1 \<and>
   map_of (target_fs (snd (main (demo_env\<lparr> disk_free := Some 5 \<rparr>) Execute
       [([], SDir True), ([''b.bin''], SFile ''0123456789'' True)] [([], Dir)] [''j''])))
     [''b.bin''] = Some (File ''0123456789'' True)"
proof -
  let ?e = "demo_env\<lparr> disk_free := Some 5 \<rparr>"
  let ?s = "[([], SDir True), ([''b.bin''], SFile ''0123456789'' True)]"
  let ?f = "\<lparr> spath = [''b.bin''], sbytes = ''0123456789'', sreadable = True \<rparr>"
  let ?t = "[([], Dir)] :: tree"
  let ?m = "log ?e Beginne_mit_Kopieren
      ((announce ?e (init ?s ?t [''j''] :: string merger))\<lparr> stdin := [] \<rparr>)"
  have g1: "total_size (snd (main env Execute src t answers)) = 0"
    by (simp add: main_execute)
  have "unwarned (snd (execute env (init src t answers)))"
    using execute_unwarned [of "init src t answers" env] by (simp add: unwarned_def)
  then have g2: "Warnung_Nicht_genug_Platz \<notin> set (out (snd (main env Execute src t answers)))"
    by (simp add: main_execute unwarned_def)
  have w: "os_walk ?s = [?f]" by (rule os_walk_one)
  have ts: "total_size (snd (dry_run ?e (init ?s ?t []))) = 10"
    by (simp add: dry_run_eq w dry_file_def scan_target_def scan_file_def walk_files_def
        calculate_md5_def log_def print_def log_file_def append_file_def path_parent_def
        is_file_def demo_env_def init_def Let_def)
  have "Fehlend (total_size (snd (dry_run ?e (init ?s ?t []))) - int 5)
       \<in> set (out (snd (dry_run ?e (init ?s ?t []))))"
    using dry_run_short [of ?e 5 ?s ?t "[]"] ts by simp
  then have d: "Fehlend 5 \<in> set (out (snd (main ?e Dry_run ?s ?t [])))"
    by (simp add: ts main_dry_run)
  have e: "main ?e Execute ?s ?t [''j''] =
      (0, final_report ?e (copy_loop ?e (os_walk ?s) ?m))"
    by (rule main_confirmed [where free = 5]) (simp_all add: affirmative_def)
  have p: "copied (process_file ?e ?f ?m) = 1"
    "map_of (target_fs (process_file ?e ?f ?m)) [''b.bin''] = Some (File ''0123456789'' True)"
    by (simp_all add: run_defs)
  have "[''b.bin''] \<noteq> log_file ?e" by (simp add: log_file_def demo_env_def)
  with p g1 g2 d show ?thesis
    by (simp add: e w final_report_lookup) (simp add: copy_loop_def)
qed

section \<open>What a pass of the copy loop keeps\<close>

lemma copy_and_index_fresh:
  assumes "sreadable f" and "\<not> path_exists (target_fs m) dst"
    and "map_of (target_fs m) (path_parent dst) = Some Dir" and "copy2_ok env dst"
  shows "copy_and_index env f d dst m =
     (if (copied m + 1) mod 100 = 0 then Some AttributeError else None,
      m\<lparr> target_fs := target_fs m @ [(dst, File (sbytes f) True)],
         target_md5s := insert d (target_md5s m), copied := copied m + 1 \<rparr>)"
  using assms by (simp add: copy_and_index_def copy2_succeeds Let_def)

lemma lookup_snoc:
  "map_of (t @ [(k, v)]) p = (if map_of t p = None \<and> p = k then Some v else map_of t p)"
  by (auto simp: map_add_def split: option.splits)

lemma process_file_collision:
  assumes r: "sreadable f"
    and n: "md5 env (sbytes f) \<notin> target_md5s m"
    and x: "map_of (target_fs m) (spath f) = Some (File x True)"
    and d: "md5 env x \<noteq> md5 env (sbytes f)"
    and p: "\<not> list_ex (\<lambda>q. map_of (target_fs m) q \<noteq> Some Dir) (prefixes (path_parent (spath f)))"
    and ok: "copy2_ok env (unique_name (target_fs m) (spath f) 1)"
  shows "process_file env f m =
    (let m1 = m\<lparr> target_fs := target_fs m @ [(unique_name (target_fs m) (spath f) 1, File (sbytes f) True)],
                  target_md5s := insert (md5 env (sbytes f)) (target_md5s m),
                  copied := copied m + 1 \<rparr>
     in if (copied m + 1) mod 100 = 0
        then log env (Fehler (spath f) AttributeError) (m1\<lparr> errors := errors m + 1 \<rparr>)
        else m1)"
proof -
  let ?dst = "unique_name (target_fs m) (spath f) 1"
  have mk: "mkdir_parents (target_fs m) (path_parent (spath f)) = Inr (target_fs m)"
    using p by (rule mkdir_parents_same)
  have pd: "map_of (target_fs m) (path_parent ?dst) = Some Dir"
    using mkdir_parents_dir [OF mk] by simp
  have ex: "path_exists (target_fs m) (spath f)" using x by (simp add: path_exists_def)
  have c: "copy_and_index env f (md5 env (sbytes f)) ?dst m =
     (if (copied m + 1) mod 100 = 0 then Some AttributeError else None,
      m\<lparr> target_fs := target_fs m @ [(?dst, File (sbytes f) True)],
         target_md5s := insert (md5 env (sbytes f)) (target_md5s m), copied := copied m + 1 \<rparr>)"
    by (rule copy_and_index_fresh [OF r unique_name_fresh pd ok])
  show ?thesis
    using r n x d ex
    by (simp add: process_file_def try_file_def calculate_md5_def mk c Let_def del: One_nat_def)
qed

lemma grows_refl [simp]: "grows env t t"
  by (simp add: grows_def)

lemma grows_trans: "grows env t t1 \<Longrightarrow> grows env t1 t2 \<Longrightarrow> grows env t t2"
  by (simp add: grows_def)

lemma appended_grows: "appended (log_file env) t t1 \<Longrightarrow> grows env t t1"
  by (simp add: grows_def appended_def)

lemma grows_log [simp]: "grows env t (target_fs m) \<Longrightarrow> grows env t (target_fs (log env e m))"
  by (erule grows_trans) (rule appended_grows, simp)

lemma grows_lookup: "grows env t t1 \<Longrightarrow> p \<noteq> log_file env \<Longrightarrow> map_of t p = Some n \<Longrightarrow> map_of t1 p = Some n"
  by (simp add: grows_def)

text \<open>
  A pass of the copy loop takes nothing away: a path that exists goes on existing, and
  every path other than the log file goes on holding what it held.
\<close>

lemma process_file_grows:
  "grows env (target_fs m) (target_fs (process_file env f m)) \<and>
   (path_exists (target_fs m) p \<longrightarrow> path_exists (target_fs (process_file env f m)) p)"
proof -
  let ?Q = "\<lambda>x. grows env (target_fs m) (target_fs x) \<and>
     (path_exists (target_fs m) p \<longrightarrow> path_exists (target_fs x) p)"
  have ex_app: "path_exists t1 p" if "appended (log_file env) t0 t1" "path_exists t0 p" for t0 t1
    using that appended_exists [of "log_file env" t0 t1] appended_lookup [of "log_file env" t0 t1 p]
    by (cases "p = log_file env") (auto simp: path_exists_def)
  have lg: "?Q (log env e x)" if "?Q x" for e x
    using that ex_app [OF log_appended [of env x e]] by auto
  have mk: "?Q (m\<lparr> target_fs := t \<rparr>)"
    if "mkdir_parents (target_fs m) q = Inr t" for t q
    using mkdir_parents_keeps [OF that] by (auto simp: grows_def path_exists_def)
  have l3: "?Q m3"
    if "mkdir_parents (target_fs m) q = Inr t" "logged env (m\<lparr> target_fs := t \<rparr>) m3" for t q m3
    using mk [OF that(1)] appended_grows [OF logged_tree [OF that(2)]]
      ex_app [OF logged_tree [OF that(2)]]
    by (auto intro: grows_trans)
  have cp: "?Q (x\<lparr> target_fs := t1 \<rparr>)"
    if "?Q x" "\<not> path_exists (target_fs x) dst" "copy2 env f dst (target_fs x) = Inr t1" for x dst t1
    using that(1,2) copy2_fresh_lookup [OF that(3,2)]
    by (auto simp: grows_def path_exists_def)
  show ?thesis
  proof (rule process_file_cases [where P = ?Q])
    show "?Q ((log env (MD5_Fehler (Src f)) m)\<lparr> errors := errors m + 1 \<rparr>)"
      using lg [of m "MD5_Fehler (Src f)"] by simp
  next
    show "?Q (m\<lparr> duplicates := duplicates m + 1 \<rparr>)" by simp
  next
    fix e
    show "?Q (log env (Fehler (spath f) e) (m\<lparr> errors := errors m + 1 \<rparr>))"
      by (rule lg) simp
  next
    fix t c
    assume "mkdir_parents (target_fs m) (path_parent (spath f)) = Inr t"
    from mk [OF this] show "?Q (m\<lparr> target_fs := t, duplicates := duplicates m + 1 \<rparr>)" by simp
  next
    fix t m3 dst e
    assume "mkdir_parents (target_fs m) (path_parent (spath f)) = Inr t"
      and "logged env (m\<lparr> target_fs := t \<rparr>) m3"
    from l3 [OF this] show "?Q (log env (Fehler (spath f) e) (m3\<lparr> errors := errors m + 1 \<rparr>))"
      by (intro lg) simp
  next
    fix t m3 dst t1
    assume a: "mkdir_parents (target_fs m) (path_parent (spath f)) = Inr t"
      "logged env (m\<lparr> target_fs := t \<rparr>) m3"
      and fr: "\<not> path_exists (target_fs m3) dst"
      and c: "copy2 env f dst (target_fs m3) = Inr t1"
    from cp [OF l3 [OF a] fr c]
    show "?Q (m3\<lparr> target_fs := t1, target_md5s := insert (md5 env (sbytes f)) (target_md5s m),
              copied := copied m + 1 \<rparr>)"
      by simp
  next
    fix t m3 dst t1
    assume a: "mkdir_parents (target_fs m) (path_parent (spath f)) = Inr t"
      "logged env (m\<lparr> target_fs := t \<rparr>) m3"
      and fr: "\<not> path_exists (target_fs m3) dst"
      and c: "copy2 env f dst (target_fs m3) = Inr t1"
    from cp [OF l3 [OF a] fr c]
    show "?Q (log env (Fehler (spath f) AttributeError)
           (m3\<lparr> target_fs := t1, target_md5s := insert (md5 env (sbytes f)) (target_md5s m),
                 copied := copied m + 1, errors := errors m + 1 \<rparr>))"
      by (intro lg) simp
  qed
qed

lemma copy_loop_grows:
  "grows env (target_fs m) (target_fs (copy_loop env fs m)) \<and>
   (path_exists (target_fs m) p \<longrightarrow> path_exists (target_fs (copy_loop env fs m)) p)"
proof (induction fs arbitrary: m)
  case Nil
  show ?case by (simp add: copy_loop_def)
next
  case (Cons f fs)
  from process_file_grows [of env m f p] Cons.IH [of "process_file env f m"]
  show ?case by (auto simp: copy_loop_def intro: grows_trans)
qed

lemma process_file_counters:
  "copied m \<le> copied (process_file env f m) \<and> duplicates m \<le> duplicates (process_file env f m)"
  by (rule process_file_cases [where P = "\<lambda>x. copied m \<le> copied x \<and> duplicates m \<le> duplicates x"])
     (simp_all add: logged_counters)

lemma copy_loop_counters:
  "copied m \<le> copied (copy_loop env fs m) \<and> duplicates m \<le> duplicates (copy_loop env fs m)"
proof (induction fs arbitrary: m)
  case Nil
  show ?case by (simp add: copy_loop_def)
next
  case (Cons f fs)
  from process_file_counters [of m env f] Cons.IH [of "process_file env f m"]
  show ?case by (simp add: copy_loop_def)
qed

lemma copy_loop_Cons: "copy_loop env (f # fs) m = copy_loop env fs (process_file env f m)"
  by (simp add: copy_loop_def)

lemma loop_state_Nil: "loop_state env src t answers [] = loop_start env (init src t answers)"
  by (simp add: loop_state_def copy_loop_def)

lemma loop_state_snoc:
  "loop_state env src t answers (pre @ f # mid) =
     copy_loop env mid (process_file env f (loop_state env src t answers pre))"
  by (simp add: loop_state_def copy_loop_append copy_loop_Cons)

lemma main_run_at:
  assumes "fst (main env Execute src t answers) = 0" and "os_walk src = pre @ f # post"
  shows "snd (main env Execute src t answers) =
     final_report env (copy_loop env post (process_file env f (loop_state env src t answers pre)))"
  by (simp add: main_run [OF assms(1)] assms(2) copy_loop_append copy_loop_Cons loop_state_def)

lemma loop_state_log:
  "map_of t [] = Some Dir \<Longrightarrow> path_exists (target_fs (loop_state env src t answers pre)) (log_file env)"
  using copy_loop_grows [of env "loop_start env (init src t answers)" pre "log_file env"]
    loop_start_log [of "init src t answers" env]
  by (simp add: loop_state_def)

lemma loop_state_first [simp]:
  "target_md5s (loop_state env src t answers []) = {}"
  "copied (loop_state env src t answers []) = 0"
  "duplicates (loop_state env src t answers []) = 0"
  "errors (loop_state env src t answers []) = 0"
  by (simp_all add: loop_state_Nil)

lemma loop_state_first_lookup:
  "p \<noteq> log_file env \<Longrightarrow> map_of (target_fs (loop_state env src t answers [])) p = map_of t p"
  by (simp add: loop_state_Nil loop_start_lookup)

section \<open>Copies: collisions of names and duplicates within a run\<close>

text \<open>
  C5. Let \<^verbatim>\<open>main\<close> run in execute mode to its end (exit status 0) on a target whose
  root directory exists, and let the walk of the source yield the file \<open>f\<close> after the
  files \<open>pre\<close>. Let \<open>f\<close> be new when the loop reaches it (its hash is not in the index),
  and let the target then hold, at the relative path of \<open>f\<close>, a readable file with
  another hash, below directories that exist. Then the pass over \<open>f\<close> copies it to the
  first unused name among \<^verbatim>\<open>stem_1.suffix\<close>, \<^verbatim>\<open>stem_2.suffix\<close>, \<dots> in the same
  directory (when \<^verbatim>\<open>copy2\<close> can write there) and counts one copy; and at the end of
  the run the copy is at that name, the file that was in the way holds what it held, as
  does every other path but the log file, and the copy is still counted.
\<close>

theorem name_collision_renamed:
  assumes run: "fst (main env Execute src t answers) = 0"
    and walk: "os_walk src = pre @ f # post"
    and root: "map_of t [] = Some Dir"
    and r: "sreadable f"
    and n: "md5 env (sbytes f) \<notin> target_md5s (loop_state env src t answers pre)"
    and x: "map_of (target_fs (loop_state env src t answers pre)) (spath f) = Some (File x True)"
    and d: "md5 env x \<noteq> md5 env (sbytes f)"
    and dirs: "\<not> list_ex (\<lambda>q. map_of (target_fs (loop_state env src t answers pre)) q \<noteq> Some Dir)
        (prefixes (path_parent (spath f)))"
    and ok: "\<forall>p. path_parent p = path_parent (spath f) \<longrightarrow> copy2_ok env p"
    and nolog: "spath f \<noteq> log_file env"
  shows "\<exists>k\<ge>1.
      (\<forall>j. 1 \<le> j \<and> j < k \<longrightarrow>
         path_exists (target_fs (loop_state env src t answers pre)) (variant (spath f) j)) \<and>
      \<not> path_exists (target_fs (loop_state env src t answers pre)) (variant (spath f) k) \<and>
      snd (main env Execute src t answers) =
        final_report env (copy_loop env post
          (process_file env f (loop_state env src t answers pre))) \<and>
      copied (process_file env f (loop_state env src t answers pre)) =
        copied (loop_state env src t answers pre) + 1 \<and>
      copied (loop_state env src t answers pre) + 1
        \<le> copied (snd (main env Execute src t answers)) \<and>
      map_of (target_fs (snd (main env Execute src t answers))) (variant (spath f) k)
        = Some (File (sbytes f) True) \<and>
      map_of (target_fs (snd (main env Execute src t answers))) (spath f) = Some (File x True) \<and>
      grows env (target_fs (loop_state env src t answers pre))
        (target_fs (snd (main env Execute src t answers)))"
proof -
  let ?M = "loop_state env src t answers pre"
  let ?M1 = "process_file env f ?M"
  let ?F = "snd (main env Execute src t answers)"
  let ?dst = "unique_name (target_fs ?M) (spath f) 1"
  obtain k where k: "1 \<le> k" "?dst = variant (spath f) k"
    "\<forall>j. 1 \<le> j \<and> j < k \<longrightarrow> path_exists (target_fs ?M) (variant (spath f) j)"
    using unique_name_variant [of 1 "target_fs ?M" "spath f"] by blast
  have fr: "\<not> path_exists (target_fs ?M) ?dst" by (rule unique_name_fresh)
  have lg: "path_exists (target_fs ?M) (log_file env)" by (rule loop_state_log [OF root])
  with fr have nl: "?dst \<noteq> log_file env" by auto
  have okd: "copy2_ok env ?dst" using ok by simp
  note e = process_file_collision [OF r n x d dirs okd]
  have a: "map_of (target_fs ?M1) ?dst = Some (File (sbytes f) True)"
    using fr nl by (simp add: e Let_def lookup_snoc path_exists_def del: map_of_append One_nat_def)
  have b: "map_of (target_fs ?M1) (spath f) = Some (File x True)"
    using x nolog by (simp add: e Let_def lookup_snoc del: map_of_append One_nat_def)
  have c: "copied ?M1 = copied ?M + 1"
    by (simp add: e Let_def)
  have F: "?F = final_report env (copy_loop env post ?M1)"
    by (rule main_run_at [OF run walk])
  have g1: "grows env (target_fs ?M1) (target_fs ?F)"
    unfolding F
    using copy_loop_grows [of env ?M1 post "[]"]
      appended_grows [OF logged_tree [OF final_report_logged [of env "copy_loop env post ?M1"]]]
    by (auto intro: grows_trans)
  have g0: "grows env (target_fs ?M) (target_fs ?M1)"
    using process_file_grows [of env ?M f "[]"] by simp
  have cnt: "copied ?M + 1 \<le> copied ?F"
    unfolding F using copy_loop_counters [of ?M1 env post] c by simp
  from grows_lookup [OF g1 nl a] grows_lookup [OF g1 nolog b] grows_trans [OF g0 g1] k fr c cnt F
  show ?thesis
    by (intro exI [of _ k]) (simp del: One_nat_def)
qed

lemma variant_a_txt: "variant [''a.txt''] 1 = [''a_1.txt'']"
  by (simp add: variant_def path_stem_def path_suffix_def path_name_def path_parent_def
      str_nat.simps digit_def Let_def)

text \<open>
  The example of the spec, as a run: \<^verbatim>\<open>a.txt\<close> with content X in the target,
  \<^verbatim>\<open>a.txt\<close> with content Y in the source; the run ends with status 0, the copy is in
  \<^verbatim>\<open>a_1.txt\<close> and \<^verbatim>\<open>a.txt\<close> keeps X.
\<close>

theorem name_collision_renamed_witness:
  "fst (main demo_env Execute [([], SDir True), ([''a.txt''], SFile ''Y'' True)]
      [([], Dir), ([''a.txt''], File ''X'' True)] [''j'']) = 0 \<and>
   map_of (target_fs (snd (main demo_env Execute [([], SDir True), ([''a.txt''], SFile ''Y'' True)]
      [([], Dir), ([''a.txt''], File ''X'' True)] [''j''])))
      [''a_1.txt''] = Some (File ''Y'' True) \<and>
   map_of (target_fs (snd (main demo_env Execute [([], SDir True), ([''a.txt''], SFile ''Y'' True)]
      [([], Dir), ([''a.txt''], File ''X'' True)] [''j''])))
      [''a.txt''] = Some (File ''X'' True) \<and>
   1 \<le> copied (snd (main demo_env Execute [([], SDir True), ([''a.txt''], SFile ''Y'' True)]
      [([], Dir), ([''a.txt''], File ''X'' True)] [''j'']))"
proof -
  let ?s = "[([], SDir True), ([''a.txt''], SFile ''Y'' True)]"
  let ?t = "[([], Dir), ([''a.txt''], File ''X'' True)]"
  let ?f = "\<lparr> spath = [''a.txt''], sbytes = ''Y'', sreadable = True \<rparr>"
  let ?M = "loop_state demo_env ?s ?t [''j''] [] :: string merger"
  let ?F = "snd (main demo_env Execute ?s ?t [''j''])"
  have nl: "[] \<noteq> log_file demo_env" "[''a.txt''] \<noteq> log_file demo_env"
    "[''a_1.txt''] \<noteq> log_file demo_env"
    by (simp_all add: log_file_def demo_env_def)
  have run: "fst (main demo_env Execute ?s ?t [''j'']) = 0"
    by (rule main_status [where free = 100]) (simp_all add: affirmative_def demo_env_def)
  have walk: "os_walk ?s = [] @ ?f # []" by (simp add: os_walk_one)
  have root: "map_of ?t [] = Some Dir" by simp
  have r: "sreadable ?f" by simp
  have n: "md5 demo_env (sbytes ?f) \<notin> target_md5s ?M" by simp
  have x: "map_of (target_fs ?M) (spath ?f) = Some (File ''X'' True)"
    by (simp add: loop_state_first_lookup nl)
  have d: "md5 demo_env ''X'' \<noteq> md5 demo_env (sbytes ?f)" by (simp add: demo_env_def)
  have dirs: "\<not> list_ex (\<lambda>q. map_of (target_fs ?M) q \<noteq> Some Dir) (prefixes (path_parent (spath ?f)))"
    by (simp add: path_parent_def loop_state_first_lookup nl)
  have ok: "\<forall>p. path_parent p = path_parent (spath ?f) \<longrightarrow> copy2_ok demo_env p"
    by (simp add: demo_env_def)
  have nolog: "spath ?f \<noteq> log_file demo_env" by (simp add: nl)
  have fresh: "\<not> path_exists (target_fs ?M) (variant (spath ?f) 1)"
    by (simp add: variant_a_txt path_exists_def loop_state_first_lookup nl del: One_nat_def)
  from name_collision_renamed [OF run walk root r n x d dirs ok nolog]
  obtain k where k: "1 \<le> k"
    "\<forall>j. 1 \<le> j \<and> j < k \<longrightarrow> path_exists (target_fs ?M) (variant (spath ?f) j)"
    "map_of (target_fs ?F) (variant (spath ?f) k) = Some (File (sbytes ?f) True)"
    "map_of (target_fs ?F) (spath ?f) = Some (File ''X'' True)"
    "copied ?M + 1 \<le> copied ?F"
    by blast
  from k(1,2) fresh have "k = 1" by (metis le_neq_implies_less order_refl)
  with k(3,4,5) run show ?thesis by (simp add: variant_a_txt del: One_nat_def)
qed

lemma stored_iff:
  "stored env t f \<longleftrightarrow> (\<exists>p r. p \<noteq> log_file env \<and> map_of t p = Some (File (sbytes f) r))"
proof
  assume "stored env t f"
  then obtain p where p: "p \<noteq> log_file env"
    "(case map_of t p of None \<Rightarrow> False | Some Dir \<Rightarrow> False | Some (File c r) \<Rightarrow> c = sbytes f)"
    by (auto simp: stored_def list_ex_iff)
  from p(2) obtain r where "map_of t p = Some (File (sbytes f) r)"
    by (cases "map_of t p") (auto split: node.splits)
  with p(1) show "\<exists>p r. p \<noteq> log_file env \<and> map_of t p = Some (File (sbytes f) r)"
    by blast
next
  assume "\<exists>p r. p \<noteq> log_file env \<and> map_of t p = Some (File (sbytes f) r)"
  then obtain p r where p: "p \<noteq> log_file env" "map_of t p = Some (File (sbytes f) r)" by blast
  from p(2) have "p \<in> fst ` set t" by (auto dest: map_of_SomeD intro: rev_image_eqI)
  with p show "stored env t f"
    by (auto simp: stored_def list_ex_iff intro!: bexI [of _ p])
qed

lemma grows_stored: "grows env t t1 \<Longrightarrow> stored env t f \<Longrightarrow> stored env t1 f"
  by (auto simp: grows_def stored_iff)

lemma process_file_indexed:
  "sreadable f \<Longrightarrow> md5 env (sbytes f) \<in> target_md5s m \<Longrightarrow>
   process_file env f m = m\<lparr> duplicates := duplicates m + 1 \<rparr>"
  by (simp add: process_file_def try_file_def calculate_md5_def)

lemma mkdir_parents_succeeds:
  "\<not> list_ex (is_file t) (prefixes p) \<Longrightarrow> \<exists>t1. mkdir_parents t p = Inr t1"
  by (auto simp: mkdir_parents_def list_ex_iff)

text \<open>
  A readable file whose hash is not in the index, with no file of its hash in its way,
  is copied when its directory can be made and \<^verbatim>\<open>copy2\<close> can write there.
\<close>

lemma process_file_copies_new:
  assumes r: "sreadable f"
    and n: "md5 env (sbytes f) \<notin> target_md5s m"
    and a: "\<forall>c r. map_of (target_fs m) (spath f) = Some (File c r) \<longrightarrow> md5 env c \<noteq> md5 env (sbytes f)"
    and d: "\<not> list_ex (is_file (target_fs m)) (prefixes (path_parent (spath f)))"
    and ok: "\<forall>p. path_parent p = path_parent (spath f) \<longrightarrow> copy2_ok env p"
    and lg: "path_exists (target_fs m) (log_file env)"
  shows "copied (process_file env f m) = copied m + 1 \<and>
     duplicates (process_file env f m) = duplicates m \<and>
     md5 env (sbytes f) \<in> target_md5s (process_file env f m) \<and>
     stored env (target_fs (process_file env f m)) f"
proof -
  let ?Q = "\<lambda>x. copied x = copied m + 1 \<and> duplicates x = duplicates m \<and>
     md5 env (sbytes f) \<in> target_md5s x \<and> stored env (target_fs x) f"
  have cp: "dst \<noteq> log_file env \<and> map_of t1 dst = Some (File (sbytes f) True)"
    if mk: "mkdir_parents (target_fs m) (path_parent (spath f)) = Inr t"
      and l: "logged env (m\<lparr> target_fs := t \<rparr>) m3"
      and fr: "\<not> path_exists (target_fs m3) dst"
      and c: "copy2 env f dst (target_fs m3) = Inr t1" for t m3 dst t1
  proof -
    from lg have "path_exists t (log_file env)"
      using mkdir_parents_keeps [OF mk] by (auto simp: path_exists_def)
    then have "path_exists (target_fs m3) (log_file env)"
      using appended_exists [OF logged_tree [OF l]] by simp
    with fr have "dst \<noteq> log_file env" by auto
    then show ?thesis by (simp add: copy2_fresh_lookup [OF c fr])
  qed
  show ?thesis
  proof (rule process_file_cases [where P = ?Q])
    assume "\<not> sreadable f"
    with r show "?Q ((log env (MD5_Fehler (Src f)) m)\<lparr> errors := errors m + 1 \<rparr>)" by simp
  next
    assume "md5 env (sbytes f) \<in> target_md5s m"
    with n show "?Q (m\<lparr> duplicates := duplicates m + 1 \<rparr>)" by simp
  next
    fix e
    assume "mkdir_parents (target_fs m) (path_parent (spath f)) = Inl e"
    with mkdir_parents_succeeds [OF d]
    show "?Q (log env (Fehler (spath f) e) (m\<lparr> errors := errors m + 1 \<rparr>))" by simp
  next
    fix t c
    assume "mkdir_parents (target_fs m) (path_parent (spath f)) = Inr t"
      and "map_of t (spath f) = Some (File c True)" and "md5 env c = md5 env (sbytes f)"
    with a mkdir_parents_files [of "target_fs m" "path_parent (spath f)" t "spath f" c True]
    show "?Q (m\<lparr> target_fs := t, duplicates := duplicates m + 1 \<rparr>)" by blast
  next
    fix t m3 dst e
    assume mk: "mkdir_parents (target_fs m) (path_parent (spath f)) = Inr t"
      and l: "logged env (m\<lparr> target_fs := t \<rparr>) m3"
      and fr: "\<not> path_exists (target_fs m3) dst"
      and pp: "path_parent dst = path_parent (spath f)"
      and c: "copy2 env f dst (target_fs m3) = Inl e"
    have pd: "map_of (target_fs m3) (path_parent dst) = Some Dir"
      using appended_dir [OF logged_tree [OF l]] mkdir_parents_dir [OF mk] pp by simp
    have "copy2 env f dst (target_fs m3) = Inr (target_fs m3 @ [(dst, File (sbytes f) True)])"
      by (rule copy2_succeeds [OF r fr pd]) (simp add: ok pp)
    with c show "?Q (log env (Fehler (spath f) e) (m3\<lparr> errors := errors m + 1 \<rparr>))" by simp
  next
    fix t m3 dst t1
    assume mk: "mkdir_parents (target_fs m) (path_parent (spath f)) = Inr t"
      and l: "logged env (m\<lparr> target_fs := t \<rparr>) m3"
      and fr: "\<not> path_exists (target_fs m3) dst"
      and c: "copy2 env f dst (target_fs m3) = Inr t1"
    from cp [OF mk l fr c] logged_counters [OF l]
    show "?Q (m3\<lparr> target_fs := t1, target_md5s := insert (md5 env (sbytes f)) (target_md5s m),
              copied := copied m + 1 \<rparr>)"
      by (auto simp: stored_iff)
  next
    fix t m3 dst t1
    assume mk: "mkdir_parents (target_fs m) (path_parent (spath f)) = Inr t"
      and l: "logged env (m\<lparr> target_fs := t \<rparr>) m3"
      and fr: "\<not> path_exists (target_fs m3) dst"
      and c: "copy2 env f dst (target_fs m3) = Inr t1"
    from cp [OF mk l fr c]
    have "stored env (target_fs (log env (Fehler (spath f) AttributeError)
           (m3\<lparr> target_fs := t1, target_md5s := insert (md5 env (sbytes f)) (target_md5s m),
                 copied := copied m + 1, errors := errors m + 1 \<rparr>))) f"
      unfolding stored_iff by (intro exI [of _ dst] exI [of _ True]) simp
    with logged_counters [OF l]
    show "?Q (log env (Fehler (spath f) AttributeError)
           (m3\<lparr> target_fs := t1, target_md5s := insert (md5 env (sbytes f)) (target_md5s m),
                 copied := copied m + 1, errors := errors m + 1 \<rparr>))"
      by simp
  qed
qed

text \<open>
  C4. Let \<^verbatim>\<open>main\<close> run in execute mode to its end (exit status 0) on a target whose
  root directory exists, and let the walk of the source yield two readable files
  \<open>f1\<close> and, later, \<open>f2\<close> with the same bytes. Let \<open>f1\<close> be new when the loop reaches
  it: its hash is not in the index and no file of that hash is in its way; let its
  directory be creatable and \<^verbatim>\<open>copy2\<close> able to write there. Then the pass over
  \<open>f1\<close> copies it (one copy counted, no duplicate); when the loop reaches \<open>f2\<close>, the
  pass counts a duplicate and changes nothing else; and the run ends with the copy and
  the duplicate counted and the bytes stored in the target.
\<close>

theorem within_run_dedup:
  assumes run: "fst (main env Execute src t answers) = 0"
    and walk: "os_walk src = pre @ f1 # mid @ f2 # post"
    and root: "map_of t [] = Some Dir"
    and r1: "sreadable f1" and r2: "sreadable f2" and same: "sbytes f2 = sbytes f1"
    and n: "md5 env (sbytes f1) \<notin> target_md5s (loop_state env src t answers pre)"
    and a: "\<forall>c r. map_of (target_fs (loop_state env src t answers pre)) (spath f1) = Some (File c r)
              \<longrightarrow> md5 env c \<noteq> md5 env (sbytes f1)"
    and dirs: "\<not> list_ex (is_file (target_fs (loop_state env src t answers pre)))
              (prefixes (path_parent (spath f1)))"
    and ok: "\<forall>p. path_parent p = path_parent (spath f1) \<longrightarrow> copy2_ok env p"
  shows "copied (process_file env f1 (loop_state env src t answers pre))
       = copied (loop_state env src t answers pre) + 1 \<and>
     duplicates (process_file env f1 (loop_state env src t answers pre))
       = duplicates (loop_state env src t answers pre) \<and>
     stored env (target_fs (process_file env f1 (loop_state env src t answers pre))) f1 \<and>
     process_file env f2 (loop_state env src t answers (pre @ f1 # mid)) =
       (loop_state env src t answers (pre @ f1 # mid))
         \<lparr> duplicates := duplicates (loop_state env src t answers (pre @ f1 # mid)) + 1 \<rparr> \<and>
     snd (main env Execute src t answers) =
       final_report env (copy_loop env post
         (process_file env f2 (loop_state env src t answers (pre @ f1 # mid)))) \<and>
     copied (loop_state env src t answers pre) + 1 \<le> copied (snd (main env Execute src t answers)) \<and>
     duplicates (loop_state env src t answers pre) + 1
       \<le> duplicates (snd (main env Execute src t answers)) \<and>
     stored env (target_fs (snd (main env Execute src t answers))) f2"
proof -
  let ?M = "loop_state env src t answers pre"
  let ?M1 = "process_file env f1 ?M"
  let ?M2 = "loop_state env src t answers (pre @ f1 # mid)"
  let ?M3 = "process_file env f2 ?M2"
  let ?F = "snd (main env Execute src t answers)"
  note c = process_file_copies_new [OF r1 n a dirs ok loop_state_log [OF root]]
  have M2: "?M2 = copy_loop env mid ?M1" by (rule loop_state_snoc)
  have i: "md5 env (sbytes f2) \<in> target_md5s ?M2"
    unfolding M2 using c copy_loop_mono [of ?M1 env mid] same by auto
  have M3: "?M3 = ?M2\<lparr> duplicates := duplicates ?M2 + 1 \<rparr>"
    by (rule process_file_indexed [OF r2 i])
  have w2: "os_walk src = (pre @ f1 # mid) @ f2 # post" using walk by simp
  have F: "?F = final_report env (copy_loop env post ?M3)"
    by (rule main_run_at [OF run w2])
  have F1: "?F = final_report env (copy_loop env (mid @ f2 # post) ?M1)"
    by (rule main_run_at [OF run walk])
  have g: "grows env (target_fs ?M1) (target_fs ?F)"
    unfolding F1
    using copy_loop_grows [of env ?M1 "mid @ f2 # post" "[]"]
      appended_grows [OF logged_tree
        [OF final_report_logged [of env "copy_loop env (mid @ f2 # post) ?M1"]]]
    by (auto intro: grows_trans)
  have "stored env (target_fs ?F) f1" using grows_stored [OF g] c by simp
  then have s2: "stored env (target_fs ?F) f2" by (simp add: stored_iff same)
  have cnt: "copied ?M + 1 \<le> copied ?F"
    unfolding F1 using copy_loop_counters [of ?M1 env "mid @ f2 # post"] c by simp
  have "duplicates ?M \<le> duplicates ?M2"
    unfolding M2 using copy_loop_counters [of ?M1 env mid] c by simp
  moreover have "duplicates ?M3 \<le> duplicates ?F"
    unfolding F using copy_loop_counters [of ?M3 env post] by simp
  ultimately have dup: "duplicates ?M + 1 \<le> duplicates ?F" by (simp add: M3)
  from c M3 F cnt dup s2 show ?thesis by simp
qed

text \<open>
  Two files \<^verbatim>\<open>a.mp3\<close> and \<^verbatim>\<open>b.mp3\<close> of the same bytes and an empty target: the run
  ends with status 0, one copy and one duplicate.
\<close>

theorem within_run_dedup_witness:
  "fst (main demo_env Execute
      [([], SDir True), ([''a.mp3''], SFile ''Z'' True), ([''b.mp3''], SFile ''Z'' True)]
      [([], Dir)] [''j'']) = 0 \<and>
   copied (snd (main demo_env Execute
      [([], SDir True), ([''a.mp3''], SFile ''Z'' True), ([''b.mp3''], SFile ''Z'' True)]
      [([], Dir)] [''j''])) = 1 \<and>
   duplicates (snd (main demo_env Execute
      [([], SDir True), ([''a.mp3''], SFile ''Z'' True), ([''b.mp3''], SFile ''Z'' True)]
      [([], Dir)] [''j''])) = 1 \<and>
   stored demo_env (target_fs (snd (main demo_env Execute
      [([], SDir True), ([''a.mp3''], SFile ''Z'' True), ([''b.mp3''], SFile ''Z'' True)]
      [([], Dir)] [''j''])))
      \<lparr> spath = [''b.mp3''], sbytes = ''Z'', sreadable = True \<rparr>"
proof -
  let ?s = "[([], SDir True), ([''a.mp3''], SFile ''Z'' True), ([''b.mp3''], SFile ''Z'' True)]"
  let ?t = "[([], Dir)] :: tree"
  let ?f1 = "\<lparr> spath = [''a.mp3''], sbytes = ''Z'', sreadable = True \<rparr>"
  let ?f2 = "\<lparr> spath = [''b.mp3''], sbytes = ''Z'', sreadable = True \<rparr>"
  let ?M = "loop_state demo_env ?s ?t [''j''] [] :: string merger"
  let ?M2 = "loop_state demo_env ?s ?t [''j''] ([] @ ?f1 # []) :: string merger"
  let ?F = "snd (main demo_env Execute ?s ?t [''j''])"
  have nl: "[] \<noteq> log_file demo_env" "[''a.mp3''] \<noteq> log_file demo_env"
    by (simp_all add: log_file_def demo_env_def)
  have run: "fst (main demo_env Execute ?s ?t [''j'']) = 0"
    by (rule main_status [where free = 100]) (simp_all add: affirmative_def demo_env_def)
  have walk: "os_walk ?s = [] @ ?f1 # [] @ ?f2 # []" by (simp add: os_walk_two)
  have root: "map_of ?t [] = Some Dir" by simp
  have r: "sreadable ?f1" "sreadable ?f2" "sbytes ?f2 = sbytes ?f1" by simp_all
  have n: "md5 demo_env (sbytes ?f1) \<notin> target_md5s ?M" by simp
  have a: "\<forall>c r. map_of (target_fs ?M) (spath ?f1) = Some (File c r)
              \<longrightarrow> md5 demo_env c \<noteq> md5 demo_env (sbytes ?f1)"
    by (simp add: loop_state_first_lookup nl)
  have dirs: "\<not> list_ex (is_file (target_fs ?M)) (prefixes (path_parent (spath ?f1)))"
    by (simp add: path_parent_def is_file_def loop_state_first_lookup nl)
  have ok: "\<forall>p. path_parent p = path_parent (spath ?f1) \<longrightarrow> copy2_ok demo_env p"
    by (simp add: demo_env_def)
  note w = within_run_dedup [OF run walk root r n a dirs ok]
  have M2: "?M2 = process_file demo_env ?f1 ?M"
    using loop_state_snoc [of demo_env ?s ?t "[''j'']" "[]" ?f1 "[]"] by (simp add: copy_loop_def)
  from w have F: "?F = final_report demo_env (?M2\<lparr> duplicates := duplicates ?M2 + 1 \<rparr>)"
    by (simp add: copy_loop_def)
  from w have c: "copied ?M2 = 1" "duplicates ?M2 = 0"
    unfolding M2 by simp_all
  from w have "stored demo_env (target_fs ?F) ?f2" by blast
  with run c show ?thesis by (simp add: F)
qed

section \<open>No source file is lost\<close>

lemma sound_appended:
  assumes "sound env C m" and "appended (log_file env) (target_fs m) (target_fs m1)"
    and "target_md5s m1 = target_md5s m"
  shows "sound env C m1"
  using assms(1,3) appended_exists [OF assms(2)]
  by (simp add: sound_def appended_lookup [OF assms(2)] cong: conj_cong)

lemma sound_logged: "sound env C m \<Longrightarrow> logged env m m1 \<Longrightarrow> sound env C m1"
  by (erule sound_appended) (simp_all add: logged_def)

lemma sound_update [simp]:
  "sound env C (m\<lparr> errors := e \<rparr>) = sound env C m"
  "sound env C (m\<lparr> duplicates := e \<rparr>) = sound env C m"
  "sound env C (m\<lparr> copied := e \<rparr>) = sound env C m"
  by (simp_all add: sound_def)

lemma sound_mkdir:
  assumes "sound env C m" and "mkdir_parents (target_fs m) q = Inr t"
  shows "sound env C (m\<lparr> target_fs := t \<rparr>)" and "grows env (target_fs m) t"
proof -
  note l = mkdir_parents_lookup [OF assms(2)]
  have f: "map_of t p = Some (File c r) \<longleftrightarrow> map_of (target_fs m) p = Some (File c r)" for p c r
    by (auto simp: l)
  have e: "path_exists t (log_file env)"
    using assms(1) by (auto simp: sound_def path_exists_def l)
  from assms(1) e show "sound env C (m\<lparr> target_fs := t \<rparr>)"
    by (simp add: sound_def f)
  show "grows env (target_fs m) t" by (simp add: grows_def l)
qed

lemma sound_copy:
  assumes s: "sound env C m3" and fr: "\<not> path_exists (target_fs m3) dst"
    and c: "copy2 env f dst (target_fs m3) = Inr t1" and b: "sbytes f \<in> C"
    and i: "target_md5s m3 = target_md5s m"
  shows "sound env C (m3\<lparr> target_fs := t1,
            target_md5s := insert (md5 env (sbytes f)) (target_md5s m) \<rparr>)"
    and "grows env (target_fs m3) t1" and "stored env t1 f"
proof -
  note l = copy2_fresh_lookup [OF c fr]
  from s fr have nl: "dst \<noteq> log_file env" by (auto simp: sound_def)
  have old: "map_of t1 p = Some n" if "map_of (target_fs m3) p = Some n" for p n
    using that fr by (auto simp: l path_exists_def)
  show "grows env (target_fs m3) t1" by (simp add: grows_def old)
  show "stored env t1 f" using nl by (auto simp: stored_iff l)
  have e: "path_exists t1 (log_file env)" using s nl by (simp add: sound_def path_exists_def l)
  have h: "\<exists>p c r. p \<noteq> log_file env \<and> map_of t1 p = Some (File c r) \<and> md5 env c = d"
    if "d \<in> insert (md5 env (sbytes f)) (target_md5s m)" for d
  proof (cases "d = md5 env (sbytes f)")
    case True
    with nl show ?thesis by (auto simp: l)
  next
    case False
    with that i have "d \<in> target_md5s m3" by simp
    with s obtain p c r where "p \<noteq> log_file env" "map_of (target_fs m3) p = Some (File c r)"
      "md5 env c = d" by (auto simp: sound_def)
    with old show ?thesis by blast
  qed
  have g: "c \<in> C" if "p \<noteq> log_file env" "map_of t1 p = Some (File c r)" for p c r
    using that s b by (auto simp: l sound_def split: if_splits)
  from e h g show "sound env C (m3\<lparr> target_fs := t1,
            target_md5s := insert (md5 env (sbytes f)) (target_md5s m) \<rparr>)"
    by (simp add: sound_def) blast
qed

lemma sound_hash_stored:
  assumes s: "sound env C m" and b: "sbytes f \<in> C" and inj: "inj_on (md5 env) C"
    and p: "p \<noteq> log_file env" "map_of (target_fs m) p = Some (File c r)"
      "md5 env c = md5 env (sbytes f)"
  shows "stored env (target_fs m) f"
proof -
  from s p(1,2) have "c \<in> C" by (auto simp: sound_def)
  with inj b p(3) have "c = sbytes f" by (auto dest: inj_onD)
  with p(1,2) show ?thesis by (auto simp: stored_iff)
qed

lemma process_file_kept:
  assumes s: "sound env C m" and nl: "spath f \<noteq> log_file env" and b: "sbytes f \<in> C"
    and inj: "inj_on (md5 env) C"
  shows "sound env C (process_file env f m) \<and>
     grows env (target_fs m) (target_fs (process_file env f m)) \<and>
     errors m \<le> errors (process_file env f m) \<and>
     (stored env (target_fs (process_file env f m)) f \<or>
      errors m + 1 \<le> errors (process_file env f m))"
proof -
  let ?Q = "\<lambda>x. sound env C x \<and> grows env (target_fs m) (target_fs x) \<and>
     errors m \<le> errors x \<and> (stored env (target_fs x) f \<or> errors m + 1 \<le> errors x)"
  have lg: "?Q (log env e (x\<lparr> errors := errors m + 1 \<rparr>))"
    if "sound env C x" "grows env (target_fs m) (target_fs x)" for x e
  proof -
    have "sound env C (log env e (x\<lparr> errors := errors m + 1 \<rparr>))"
      by (rule sound_logged [of _ _ "x\<lparr> errors := errors m + 1 \<rparr>"]) (simp_all add: that)
    moreover have "grows env (target_fs m) (target_fs (log env e (x\<lparr> errors := errors m + 1 \<rparr>)))"
      using that(2) appended_grows [OF log_appended [of env "x\<lparr> errors := errors m + 1 \<rparr>" e]]
      by (auto intro: grows_trans)
    ultimately show ?thesis by simp
  qed
  show ?thesis
  proof (rule process_file_cases [where P = ?Q])
    have "?Q (log env (MD5_Fehler (Src f)) (m\<lparr> errors := errors m + 1 \<rparr>))"
      by (rule lg) (simp_all add: s)
    then show "?Q ((log env (MD5_Fehler (Src f)) m)\<lparr> errors := errors m + 1 \<rparr>)"
      by (simp add: log_def print_def Let_def sound_def)
  next
    assume "md5 env (sbytes f) \<in> target_md5s m"
    with s obtain p c r where "p \<noteq> log_file env" "map_of (target_fs m) p = Some (File c r)"
      "md5 env c = md5 env (sbytes f)" by (auto simp: sound_def)
    from sound_hash_stored [OF s b inj this] s
    show "?Q (m\<lparr> duplicates := duplicates m + 1 \<rparr>)" by simp
  next
    fix e
    show "?Q (log env (Fehler (spath f) e) (m\<lparr> errors := errors m + 1 \<rparr>))"
      by (rule lg) (simp_all add: s)
  next
    fix t c
    assume mk: "mkdir_parents (target_fs m) (path_parent (spath f)) = Inr t"
      and c: "map_of t (spath f) = Some (File c True)" "md5 env c = md5 env (sbytes f)"
    note sm = sound_mkdir [OF s mk]
    have "stored env (target_fs (m\<lparr> target_fs := t \<rparr>)) f"
      by (rule sound_hash_stored [OF sm(1) b inj nl _ c(2)]) (simp add: c(1))
    with sm show "?Q (m\<lparr> target_fs := t, duplicates := duplicates m + 1 \<rparr>)"
      by simp
  next
    fix t m3 dst e
    assume mk: "mkdir_parents (target_fs m) (path_parent (spath f)) = Inr t"
      and l: "logged env (m\<lparr> target_fs := t \<rparr>) m3"
    note sm = sound_mkdir [OF s mk]
    have "sound env C m3" by (rule sound_logged [OF sm(1) l])
    moreover have "grows env (target_fs m) (target_fs m3)"
      using sm(2) appended_grows [OF logged_tree [OF l]] by (auto intro: grows_trans)
    ultimately show "?Q (log env (Fehler (spath f) e) (m3\<lparr> errors := errors m + 1 \<rparr>))"
      by (rule lg)
  next
    fix t m3 dst t1
    assume mk: "mkdir_parents (target_fs m) (path_parent (spath f)) = Inr t"
      and l: "logged env (m\<lparr> target_fs := t \<rparr>) m3"
      and fr: "\<not> path_exists (target_fs m3) dst"
      and c: "copy2 env f dst (target_fs m3) = Inr t1"
    note sm = sound_mkdir [OF s mk]
    have s3: "sound env C m3" by (rule sound_logged [OF sm(1) l])
    have i: "target_md5s m3 = target_md5s m" "errors m3 = errors m"
      using logged_counters [OF l] by simp_all
    note sc = sound_copy [OF s3 fr c b i(1)]
    have "grows env (target_fs m) t1"
      using sm(2) appended_grows [OF logged_tree [OF l]] sc(2) by (auto intro: grows_trans)
    with sc i show "?Q (m3\<lparr> target_fs := t1,
        target_md5s := insert (md5 env (sbytes f)) (target_md5s m), copied := copied m + 1 \<rparr>)"
      by simp
  next
    fix t m3 dst t1
    assume mk: "mkdir_parents (target_fs m) (path_parent (spath f)) = Inr t"
      and l: "logged env (m\<lparr> target_fs := t \<rparr>) m3"
      and fr: "\<not> path_exists (target_fs m3) dst"
      and c: "copy2 env f dst (target_fs m3) = Inr t1"
    note sm = sound_mkdir [OF s mk]
    have s3: "sound env C m3" by (rule sound_logged [OF sm(1) l])
    have i: "target_md5s m3 = target_md5s m"
      using logged_counters [OF l] by simp
    note sc = sound_copy [OF s3 fr c b i]
    have "grows env (target_fs m) t1"
      using sm(2) appended_grows [OF logged_tree [OF l]] sc(2) by (auto intro: grows_trans)
    with sc(1) have "?Q (log env (Fehler (spath f) AttributeError)
         ((m3\<lparr> target_fs := t1, target_md5s := insert (md5 env (sbytes f)) (target_md5s m),
                copied := copied m + 1 \<rparr>)\<lparr> errors := errors m + 1 \<rparr>))"
      by (intro lg) simp_all
    then show "?Q (log env (Fehler (spath f) AttributeError)
         (m3\<lparr> target_fs := t1, target_md5s := insert (md5 env (sbytes f)) (target_md5s m),
               copied := copied m + 1, errors := errors m + 1 \<rparr>))"
      by simp
  qed
qed

lemma copy_loop_kept:
  assumes "sound env C m" and "\<forall>f\<in>set fs. spath f \<noteq> log_file env \<and> sbytes f \<in> C"
    and "inj_on (md5 env) C"
  shows "sound env C (copy_loop env fs m) \<and>
     grows env (target_fs m) (target_fs (copy_loop env fs m)) \<and>
     errors m + int (length (filter (\<lambda>f. \<not> stored env (target_fs (copy_loop env fs m)) f) fs))
       \<le> errors (copy_loop env fs m)"
  using assms(1,2)
proof (induction fs arbitrary: m rule: rev_induct)
  case Nil
  then show ?case by (simp add: copy_loop_def)
next
  case (snoc f fs)
  let ?m1 = "copy_loop env fs m"
  let ?m2 = "process_file env f ?m1"
  from snoc have ih: "sound env C ?m1" "grows env (target_fs m) (target_fs ?m1)"
    "errors m + int (length (filter (\<lambda>f. \<not> stored env (target_fs ?m1) f) fs)) \<le> errors ?m1"
    by simp_all
  from snoc.prems have f: "spath f \<noteq> log_file env" "sbytes f \<in> C" by simp_all
  note st = process_file_kept [OF ih(1) f assms(3)]
  have e: "copy_loop env (fs @ [f]) m = ?m2" by (simp add: copy_loop_def)
  have "length (filter (\<lambda>f. \<not> stored env (target_fs ?m2) f) fs)
      \<le> length (filter (\<lambda>f. \<not> stored env (target_fs ?m1) f) fs)"
  proof -
    have "filter (\<lambda>f. \<not> stored env (target_fs ?m2) f) fs =
        filter (\<lambda>f. \<not> stored env (target_fs ?m2) f) (filter (\<lambda>f. \<not> stored env (target_fs ?m1) f) fs)"
      using st grows_stored [of env "target_fs ?m1" "target_fs ?m2"]
      by (auto intro!: filter_cong)
    then show ?thesis by (metis length_filter_le)
  qed
  with ih(3) st have "errors m + int (length (filter (\<lambda>f. \<not> stored env (target_fs ?m2) f) (fs @ [f])))
      \<le> errors ?m2"
    by auto
  moreover from ih(2) st have "grows env (target_fs m) (target_fs ?m2)"
    by (auto intro: grows_trans)
  ultimately show ?case using st by (simp add: e)
qed

lemma lost_antimono:
  assumes "grows env t t1"
  shows "length (filter (\<lambda>f. \<not> stored env t1 f) fs) \<le> length (filter (\<lambda>f. \<not> stored env t f) fs)"
proof -
  have "filter (\<lambda>f. \<not> stored env t1 f) fs =
      filter (\<lambda>f. \<not> stored env t1 f) (filter (\<lambda>f. \<not> stored env t f) fs)"
    using grows_stored [OF assms] by (auto intro!: filter_cong)
  then show ?thesis by (metis length_filter_le)
qed

text \<open>
  C3, as the spec states it, fails: \<^verbatim>\<open>os.walk\<close> passes over a directory that it
  cannot list (line 223 gives no \<^verbatim>\<open>onerror\<close>), and the files below it never reach the
  loop. With \<^verbatim>\<open>d/x.bin\<close> in the source below a directory \<^verbatim>\<open>d\<close> that cannot be
  listed, and an empty target, the run ends with status 0, nothing copied and no error
  counted, and the bytes of the file are nowhere in the target.
\<close>

theorem unlisted_directory_counterexample:
  "map_of [([], SDir True), ([''d''], SDir False), ([''d'', ''x.bin''], SFile ''Z'' True)]
     [''d'', ''x.bin''] = Some (SFile ''Z'' True) \<and>
   fst (main demo_env Execute
     [([], SDir True), ([''d''], SDir False), ([''d'', ''x.bin''], SFile ''Z'' True)]
     [([], Dir)] [''j'']) = 0 \<and>
   copied (snd (main demo_env Execute
     [([], SDir True), ([''d''], SDir False), ([''d'', ''x.bin''], SFile ''Z'' True)]
     [([], Dir)] [''j''])) = 0 \<and>
   errors (snd (main demo_env Execute
     [([], SDir True), ([''d''], SDir False), ([''d'', ''x.bin''], SFile ''Z'' True)]
     [([], Dir)] [''j''])) = 0 \<and>
   \<not> stored demo_env (target_fs (snd (main demo_env Execute
     [([], SDir True), ([''d''], SDir False), ([''d'', ''x.bin''], SFile ''Z'' True)]
     [([], Dir)] [''j''])))
     \<lparr> spath = [''d'', ''x.bin''], sbytes = ''Z'', sreadable = True \<rparr>"
proof -
  let ?s = "[([], SDir True), ([''d''], SDir False), ([''d'', ''x.bin''], SFile ''Z'' True)]"
  let ?t = "[([], Dir)] :: tree"
  let ?F = "snd (main demo_env Execute ?s ?t [''j'']) :: string merger"
  have w: "os_walk ?s = []"
    by (simp add: os_walk_def reached_def path_parent_def map_filter_simps)
  have run: "fst (main demo_env Execute ?s ?t [''j'']) = 0"
    by (rule main_status [where free = 100]) (simp_all add: affirmative_def demo_env_def)
  have F: "?F = final_report demo_env (loop_start demo_env (init ?s ?t [''j'']))"
    by (simp add: main_run [OF run] w copy_loop_def)
  have "appended (log_file demo_env) ?t (target_fs ?F)"
    unfolding F
    using appended_trans [OF loop_start_appended [of demo_env "init ?s ?t [''j'']"]
        logged_tree [OF final_report_logged]]
    by simp
  then have l: "map_of (target_fs ?F) p = map_of ?t p" if "p \<noteq> log_file demo_env" for p
    using that by (rule appended_lookup)
  have "\<not> stored demo_env (target_fs ?F)
      \<lparr> spath = [''d'', ''x.bin''], sbytes = ''Z'', sreadable = True \<rparr>"
    unfolding stored_iff using l by (auto split: if_splits)
  with run show ?thesis by (simp add: F)
qed

text \<open>
  C3, amended: for the files that the walk of the source yields. Let \<^verbatim>\<open>main\<close> run in
  execute mode to its end (exit status 0) on a target whose root directory exists, let
  none of these files have the relative path of the log file of the run, and let no two
  different contents among them and the files of the target have the same hash. Then
  those of them whose bytes are in no file of the target at the end (the log file
  aside) are at most as many as the errors counted: each of them was counted in
  \<^verbatim>\<open>errors\<close> when the loop passed over it. (A file whose hash was in the target before
  the run is copied again or met at its own path, so it is stored as well.)
\<close>

theorem no_file_silently_lost:
  assumes root: "map_of t [] = Some Dir"
    and nolog: "\<forall>f\<in>set (os_walk src). spath f \<noteq> log_file env"
    and inj: "inj_on (md5 env)
        (sbytes ` set (os_walk src) \<union> {c. \<exists>p r. map_of t p = Some (File c r)})"
    and run: "fst (main env Execute src t answers) = 0"
  shows "int (length (filter
            (\<lambda>f. \<not> stored env (target_fs (snd (main env Execute src t answers))) f)
            (os_walk src)))
         \<le> errors (snd (main env Execute src t answers))"
proof -
  let ?C = "sbytes ` set (os_walk src) \<union> {c. \<exists>p r. map_of t p = Some (File c r)}"
  let ?m7 = "loop_start env (init src t answers) :: 'a merger"
  let ?m8 = "copy_loop env (os_walk src) ?m7"
  have a: "appended (log_file env) t (target_fs ?m7)"
    using loop_start_appended [of env "init src t answers"] by simp
  have "path_exists (target_fs ?m7) (log_file env)"
    by (rule loop_start_log) (simp add: root)
  moreover have "c \<in> ?C" if "p \<noteq> log_file env" "map_of (target_fs ?m7) p = Some (File c r)" for p c r
  proof -
    from that have "map_of t p = Some (File c r)" by (simp only: appended_lookup [OF a that(1)])
    then show ?thesis by blast
  qed
  moreover have "target_md5s ?m7 = {}" by simp
  ultimately have s: "sound env ?C ?m7"
    unfolding sound_def by blast
  from nolog have "\<forall>f\<in>set (os_walk src). spath f \<noteq> log_file env \<and> sbytes f \<in> ?C" by simp
  from copy_loop_kept [OF s this inj]
  have k: "int (length (filter (\<lambda>f. \<not> stored env (target_fs ?m8) f) (os_walk src))) \<le> errors ?m8"
    by simp
  have "grows env (target_fs ?m8) (target_fs (final_report env ?m8))"
    by (rule appended_grows [OF logged_tree [OF final_report_logged]])
  from lost_antimono [OF this, of "os_walk src"] k
  have "int (length (filter (\<lambda>f. \<not> stored env (target_fs (final_report env ?m8)) f) (os_walk src)))
      \<le> errors (final_report env ?m8)"
    by simp
  then show ?thesis by (simp add: main_run [OF run])
qed

text \<open>
  A run over one file that collides with a file of the target and one file that cannot be
  read: the hypotheses of the theorem hold there.
\<close>

theorem no_file_silently_lost_witness:
  "int (length (filter (\<lambda>f. \<not> stored demo_env (target_fs (snd (main demo_env Execute
       [([], SDir True), ([''a.txt''], SFile ''Y'' True), ([''b.txt''], SFile ''W'' False)]
       [([], Dir), ([''a.txt''], File ''X'' True)] [''j'']))) f)
       (os_walk [([], SDir True), ([''a.txt''], SFile ''Y'' True), ([''b.txt''], SFile ''W'' False)])))
     \<le> errors (snd (main demo_env Execute
       [([], SDir True), ([''a.txt''], SFile ''Y'' True), ([''b.txt''], SFile ''W'' False)]
       [([], Dir), ([''a.txt''], File ''X'' True)] [''j'']))"
proof -
  let ?t = "[([], Dir), ([''a.txt''], File ''X'' True)]"
  let ?s = "[([], SDir True), ([''a.txt''], SFile ''Y'' True), ([''b.txt''], SFile ''W'' False)]"
  have w: "os_walk ?s = [\<lparr> spath = [''a.txt''], sbytes = ''Y'', sreadable = True \<rparr>,
        \<lparr> spath = [''b.txt''], sbytes = ''W'', sreadable = False \<rparr>]"
    by (simp add: os_walk_two)
  have run: "fst (main demo_env Execute ?s ?t [''j'']) = 0"
    by (rule main_status [where free = 100]) (simp_all add: affirmative_def demo_env_def)
  have h: "map_of ?t [] = Some Dir" "\<forall>f\<in>set (os_walk ?s). spath f \<noteq> log_file demo_env"
    "inj_on (md5 demo_env) (sbytes ` set (os_walk ?s) \<union> {c. \<exists>p r. map_of ?t p = Some (File c r)})"
    by (simp_all add: w log_file_def) (simp_all add: demo_env_def)
  from no_file_silently_lost [OF h run] show ?thesis .
qed

section \<open>The index at the start of \<^verbatim>\<open>execute\<close>\<close>

text \<open>
  C1. The spec has \<^verbatim>\<open>execute\<close> skip every source file whose hash is the hash of a file
  anywhere under the target, the index being built by a scan of the target at the start
  of the run. \<^verbatim>\<open>main\<close> calls \<^verbatim>\<open>execute\<close> on a fresh merger, and \<^verbatim>\<open>execute\<close> never
  calls \<^verbatim>\<open>scan_target\<close>: the index is empty when the copy loop starts. With
  \<^verbatim>\<open>orig/x.bin\<close> in the target and \<^verbatim>\<open>copy/x.bin\<close> of the same content in the source, the
  run copies the file and counts no duplicate.
\<close>

theorem execute_skips_target_scan:
  "map_of [([], Dir), ([''orig''], Dir), ([''orig'', ''x.bin''], File ''Z'' True)] [''orig'', ''x.bin'']
     = Some (File ''Z'' True) \<and>
   copied (snd (main demo_env Execute
     [([], SDir True), ([''copy''], SDir True), ([''copy'', ''x.bin''], SFile ''Z'' True)]
     [([], Dir), ([''orig''], Dir), ([''orig'', ''x.bin''], File ''Z'' True)] [''j''])) = 1 \<and>
   duplicates (snd (main demo_env Execute
     [([], SDir True), ([''copy''], SDir True), ([''copy'', ''x.bin''], SFile ''Z'' True)]
     [([], Dir), ([''orig''], Dir), ([''orig'', ''x.bin''], File ''Z'' True)] [''j''])) = 0 \<and>
   map_of (target_fs (snd (main demo_env Execute
     [([], SDir True), ([''copy''], SDir True), ([''copy'', ''x.bin''], SFile ''Z'' True)]
     [([], Dir), ([''orig''], Dir), ([''orig'', ''x.bin''], File ''Z'' True)] [''j''])))
     [''copy'', ''x.bin''] = Some (File ''Z'' True)"
proof -
  let ?s = "[([], SDir True), ([''copy''], SDir True), ([''copy'', ''x.bin''], SFile ''Z'' True)]"
  let ?t = "[([], Dir), ([''orig''], Dir), ([''orig'', ''x.bin''], File ''Z'' True)]"
  let ?f = "\<lparr> spath = [''copy'', ''x.bin''], sbytes = ''Z'', sreadable = True \<rparr>"
  let ?m = "log demo_env Beginne_mit_Kopieren
      ((announce demo_env (init ?s ?t [''j''] :: string merger))\<lparr> stdin := [] \<rparr>)"
  have w: "os_walk ?s = [?f]"
    by (simp add: os_walk_def reached_def path_parent_def map_filter_simps)
  have e: "main demo_env Execute ?s ?t [''j''] =
      (0, final_report demo_env (copy_loop demo_env (os_walk ?s) ?m))"
    by (rule main_confirmed [where free = 100]) (simp_all add: affirmative_def demo_env_def)
  have p: "copied (process_file demo_env ?f ?m) = 1"
    "duplicates (process_file demo_env ?f ?m) = 0"
    "map_of (target_fs (process_file demo_env ?f ?m)) [''copy'', ''x.bin''] = Some (File ''Z'' True)"
    by (simp_all add: run_defs)
  have "[''copy'', ''x.bin''] \<noteq> log_file demo_env" by (simp add: log_file_def)
  with p show ?thesis
    by (simp add: e w final_report_lookup) (simp add: copy_loop_def)
qed

lemma variant_a_txt_2: "variant [''a.txt''] 2 = [''a_2.txt'']"
  by (simp add: variant_def path_stem_def path_suffix_def path_name_def path_parent_def
      str_nat.simps digit_def Let_def)

lemma unique_name_second:
  assumes "path_exists t (variant p 1)" and "\<not> path_exists t (variant p 2)"
  shows "unique_name t p 1 = variant p 2"
proof -
  have "unique_name t p 1 = unique_name t p (1 + 1)"
    by (simp only: unique_name.simps [of t p 1] assms(1) if_True)
  also have "(1::nat) + 1 = 2" by simp
  also have "unique_name t p 2 = variant p 2"
    by (simp only: unique_name.simps [of t p 2] assms(2) if_False)
  finally show ?thesis .
qed

text \<open>
  C2. The spec has a second run of \<^verbatim>\<open>execute\<close> on the same source and target copy
  nothing. With \<^verbatim>\<open>a.txt\<close> of content X in the target and \<^verbatim>\<open>a.txt\<close> of content Y in
  the source, the first run ends with status 0 and leaves \<^verbatim>\<open>a_1.txt\<close>; the second run
  (another time stamp, so another log file) starts with an empty index again, meets
  \<^verbatim>\<open>a.txt\<close> with another hash, and copies the file once more, to \<^verbatim>\<open>a_2.txt\<close>.
\<close>

theorem second_run_copies_again:
  "fst (main demo_env Execute [([], SDir True), ([''a.txt''], SFile ''Y'' True)]
      [([], Dir), ([''a.txt''], File ''X'' True)] [''j'']) = 0 \<and>
   copied (snd (main (demo_env\<lparr> log_name := ''merge_2.log'' \<rparr>) Execute
      [([], SDir True), ([''a.txt''], SFile ''Y'' True)]
      (target_fs (snd (main demo_env Execute [([], SDir True), ([''a.txt''], SFile ''Y'' True)]
         [([], Dir), ([''a.txt''], File ''X'' True)] [''j''])))
      [''j''])) = 1 \<and>
   duplicates (snd (main (demo_env\<lparr> log_name := ''merge_2.log'' \<rparr>) Execute
      [([], SDir True), ([''a.txt''], SFile ''Y'' True)]
      (target_fs (snd (main demo_env Execute [([], SDir True), ([''a.txt''], SFile ''Y'' True)]
         [([], Dir), ([''a.txt''], File ''X'' True)] [''j''])))
      [''j''])) = 0 \<and>
   map_of (target_fs (snd (main (demo_env\<lparr> log_name := ''merge_2.log'' \<rparr>) Execute
      [([], SDir True), ([''a.txt''], SFile ''Y'' True)]
      (target_fs (snd (main demo_env Execute [([], SDir True), ([''a.txt''], SFile ''Y'' True)]
         [([], Dir), ([''a.txt''], File ''X'' True)] [''j''])))
      [''j'']))) [''a_2.txt''] = Some (File ''Y'' True)"
proof -
  let ?s = "[([], SDir True), ([''a.txt''], SFile ''Y'' True)]"
  let ?t = "[([], Dir), ([''a.txt''], File ''X'' True)]"
  let ?f = "\<lparr> spath = [''a.txt''], sbytes = ''Y'', sreadable = True \<rparr>"
  let ?e2 = "demo_env\<lparr> log_name := ''merge_2.log'' \<rparr>"
  let ?m1 = "log demo_env Beginne_mit_Kopieren
      ((announce demo_env (init ?s ?t [''j''] :: string merger))\<lparr> stdin := [] \<rparr>)"
  let ?x1 = "process_file demo_env ?f ?m1"
  let ?t1 = "target_fs (final_report demo_env ?x1)"
  let ?m2 = "log ?e2 Beginne_mit_Kopieren
      ((announce ?e2 (init ?s ?t1 [''j''] :: string merger))\<lparr> stdin := [] \<rparr>)"
  have w: "os_walk ?s = [?f]" by (rule os_walk_one)
  have e1: "main demo_env Execute ?s ?t [''j''] =
      (0, final_report demo_env (copy_loop demo_env (os_walk ?s) ?m1))"
    by (rule main_confirmed [where free = 100]) (simp_all add: affirmative_def demo_env_def)
  have e2: "main ?e2 Execute ?s ?t1 [''j''] =
      (0, final_report ?e2 (copy_loop ?e2 (os_walk ?s) ?m2))"
    by (rule main_confirmed [where free = 100]) (simp_all add: affirmative_def demo_env_def)
  have r1: "snd (main demo_env Execute ?s ?t [''j'']) = final_report demo_env ?x1"
    "fst (main demo_env Execute ?s ?t [''j'']) = 0"
    by (simp_all add: e1 w copy_loop_def)
  have v: "variant [''a.txt''] 1 = [''a_1.txt'']" by (rule variant_a_txt)
  have u1: "unique_name (target_fs ?m1) [''a.txt''] 1 = [''a_1.txt'']"
    by (subst unique_name.simps) (simp add: v run_defs del: One_nat_def)
  have x1: "map_of (target_fs ?x1) [] = Some Dir"
    "map_of (target_fs ?x1) [''a.txt''] = Some (File ''X'' True)"
    "map_of (target_fs ?x1) [''a_1.txt''] = Some (File ''Y'' True)"
    "map_of (target_fs ?x1) [''a_2.txt''] = None"
    using u1 by (simp_all add: run_defs del: One_nat_def)
  have l1: "map_of ?t1 p = map_of (target_fs ?x1) p" if "p \<noteq> [''merge.log'']" for p
    using that by (simp add: final_report_lookup log_file_def demo_env_def)
  have a2: "appended (log_file ?e2) ?t1 (target_fs ?m2)"
    using logged_tree [OF announce_logged, of ?e2 "init ?s ?t1 [''j'']"] by simp
  have l2: "map_of (target_fs ?m2) p = map_of (target_fs ?x1) p"
    if "p \<noteq> [''merge.log'']" "p \<noteq> [''merge_2.log'']" for p
    using that appended_lookup [OF a2, of p] l1 [of p] by (simp add: log_file_def demo_env_def)
  have u2: "unique_name (target_fs ?m2) [''a.txt''] 1 = [''a_2.txt'']"
    using unique_name_second [of "target_fs ?m2" "[''a.txt'']"]
    by (simp add: v variant_a_txt_2 path_exists_def l2 x1 del: One_nat_def)
  have c: "process_file ?e2 ?f ?m2 =
    (let m1 = ?m2\<lparr> target_fs := target_fs ?m2 @ [(unique_name (target_fs ?m2) (spath ?f) 1, File (sbytes ?f) True)],
                  target_md5s := insert (md5 ?e2 (sbytes ?f)) (target_md5s ?m2),
                  copied := copied ?m2 + 1 \<rparr>
     in if (copied ?m2 + 1) mod 100 = 0
        then log ?e2 (Fehler (spath ?f) AttributeError) (m1\<lparr> errors := errors ?m2 + 1 \<rparr>)
        else m1)"
  proof (rule process_file_collision [where x = "''X''"])
    show "sreadable ?f" by simp
    show "md5 ?e2 (sbytes ?f) \<notin> target_md5s ?m2"
      by (simp add: logged_counters [OF announce_logged])
    show "map_of (target_fs ?m2) (spath ?f) = Some (File ''X'' True)"
      by (simp add: l2 x1)
    show "md5 ?e2 ''X'' \<noteq> md5 ?e2 (sbytes ?f)" by (simp add: demo_env_def)
    show "\<not> list_ex (\<lambda>q. map_of (target_fs ?m2) q \<noteq> Some Dir) (prefixes (path_parent (spath ?f)))"
      by (simp add: path_parent_def l2 x1)
    show "copy2_ok ?e2 (unique_name (target_fs ?m2) (spath ?f) 1)"
      by (simp add: demo_env_def)
  qed
  have n: "map_of (target_fs ?m2) [''a_2.txt''] = None" by (simp add: l2 x1)
  have p2: "copied (process_file ?e2 ?f ?m2) = 1" "duplicates (process_file ?e2 ?f ?m2) = 0"
    "map_of (target_fs (process_file ?e2 ?f ?m2)) [''a_2.txt''] = Some (File ''Y'' True)"
    using n
    by (simp_all add: c u2 Let_def logged_counters [OF announce_logged] lookup_snoc
        del: One_nat_def map_of_append)
  have "[''a_2.txt''] \<noteq> log_file ?e2" by (simp add: log_file_def)
  with p2 r1 show ?thesis
    by (simp add: e2 w final_report_lookup) (simp add: copy_loop_def)
qed

end
